theory Spec2Isabelle
  imports Complex_Main
begin

section \<open>The pixel embedder of \<^verbatim>\<open>src/embedder.js\<close>\<close>

text \<open>
  The class \<^verbatim>\<open>OptimizedPixelEmbedder\<close> drains a queue of pixels through a rate limiter
  (\<^verbatim>\<open>safeDelay\<close>, \<^verbatim>\<open>recordRequest\<close>), sends each one (\<^verbatim>\<open>placePixel\<close>) and keeps a
  checkpoint in \<^verbatim>\<open>localStorage\<close>. The embedding below keeps the object's fields as a
  record and makes everything the code reads from outside explicit:

  \<^item> \<^verbatim>\<open>Date.now()\<close> is the field \<open>clock\<close> of the world, in milliseconds (an \<open>int\<close>, since
    the code subtracts timestamps);
  \<^item> \<^verbatim>\<open>sleep(ms)\<close> moves the clock forward by \<open>ms\<close> plus a lag chosen by the environment
    (a timer never fires early, it may fire late);
  \<^item> the slot \<^verbatim>\<open>localStorage['pixelEmbedder_progress']\<close> is the field \<open>storage\<close>;
  \<^item> what the remote answers to a send, how long it takes, the value of
    \<^verbatim>\<open>Math.random()\<close>, whether \<^verbatim>\<open>setItem\<close> throws, what the page shows as credits, what the
    user answers to \<^verbatim>\<open>confirm\<close> and whether the user calls \<^verbatim>\<open>stop()\<close> while the loop is
    suspended are parameters (the records \<open>env\<close> and \<open>start_env\<close>).

  The embedding has two layers. The first (\<open>iteration\<close>, \<open>run_loop\<close>, \<open>processQueue\<close>) is
  one loop left alone: from \<^verbatim>\<open>shift\<close> to the end of the pass nothing else runs on the
  embedder, except that the user may call \<^verbatim>\<open>stop()\<close>. The second (\<open>deliver\<close>) is the event
  loop of the browser: the code runs from one \<^verbatim>\<open>await\<close> to the next, and between two such
  stretches a timer of any suspended loop may fire, the remote may answer, and the user may
  call \<^verbatim>\<open>stop()\<close>, \<^verbatim>\<open>embedImage\<close>, \<^verbatim>\<open>resumeEmbedding()\<close> or \<^verbatim>\<open>clearSession()\<close>, so that
  several loops can work on the same fields. The two layers are made of the same pieces of
  code, and the first is the second with one loop and nothing interleaved
  (\<open>solo_pass_agrees\<close>).
\<close>

subsection \<open>Data\<close>

datatype pixel = Pixel (pixel_x: int) (pixel_y: int) (pixel_color: string)

text \<open>The object written by \<^verbatim>\<open>saveProgress\<close>. \<^verbatim>\<open>loadProgress\<close>'s callers test
  \<^verbatim>\<open>saved.queue\<close> and \<^verbatim>\<open>saved.originalPixels\<close> for presence, so both are optional.\<close>

record progressData =
  saved_sessionId :: "string option"
  saved_queue :: "pixel list option"
  saved_originalPixels :: "pixel list option"
  saved_pixelsPlaced :: nat
  saved_errors :: nat
  saved_timestamp :: int
  saved_isActive :: bool

text \<open>The content of the storage slot: a string that \<^verbatim>\<open>JSON.parse\<close> rejects, or the
  serialisation of a progress object.\<close>

datatype slot = Unparsable | Saved progressData

text \<open>The fields of the embedder object. \<open>socket\<close> is whether \<^verbatim>\<open>window.socket\<close> was there
  when the object was built.\<close>

record embedder =
  queue :: "pixel list"
  isPlacing :: bool
  pixelsPlaced :: nat
  errors :: nat
  currentCredits :: "nat option"
  sessionId :: "string option"
  originalPixels :: "pixel list"
  currentTier :: string
  tierLogged :: bool
  burstTracker :: "int list"
  requestTimes :: "int list"
  lastRequestTime :: "int option"
  socket :: bool

text \<open>The embedder together with the two pieces of the browser it works on.\<close>

record world = embedder +
  storage :: "slot option"
  clock :: int

text \<open>The fields the constructor sets once and nothing assigns again.\<close>

definition baseDelay :: int where "baseDelay = 400"
definition universalDelay :: int where "universalDelay = 400"
definition burstLimit :: nat where "burstLimit = 15"
definition burstWindow :: int where "burstWindow = 10000"
definition burstSafetyBuffer :: int where "burstSafetyBuffer = 2000"

text \<open>What the environment supplies to one iteration of the dispatch loop.\<close>

datatype outcome = Confirmed | Rejected string

record env =
  random100 :: nat         \<comment> \<open>the integer part of \<^verbatim>\<open>Math.random() * 100\<close>\<close>
  lag_burst :: nat         \<comment> \<open>lateness of the burst-protection timer\<close>
  lag_spacing :: nat       \<comment> \<open>lateness of the minimum-spacing timer\<close>
  lag_extra :: nat         \<comment> \<open>lateness of the extra-safety timer\<close>
  latency :: nat           \<comment> \<open>time from the call of \<^verbatim>\<open>placePixel\<close> to its settlement\<close>
  answer :: outcome        \<comment> \<open>how \<^verbatim>\<open>placePixel\<close> settles\<close>
  stop_requested :: bool   \<comment> \<open>\<^verbatim>\<open>stop()\<close> is called while the send is awaited\<close>
  save_ok :: bool          \<comment> \<open>\<^verbatim>\<open>localStorage.setItem\<close> does not throw\<close>
  page_credits :: "nat option" \<comment> \<open>the credit count the page shows, if any\<close>
  lag_cooldown :: nat      \<comment> \<open>lateness of the cooldown timer after a failure\<close>

text \<open>What the environment supplies to the start of \<^verbatim>\<open>embedImage\<close>.\<close>

record start_env =
  start_lag :: nat         \<comment> \<open>lateness of the 300ms timer\<close>
  start_credits :: "nat option"
  start_confirm :: bool    \<comment> \<open>the answer to the insufficient-credits dialog\<close>
  start_suffix :: string   \<comment> \<open>\<^verbatim>\<open>Date.now() + '_' + Math.random().toString(36).substr(2, 9)\<close>\<close>
  start_save_ok :: bool

subsection \<open>Clock and truthiness\<close>

definition sleep :: "int \<Rightarrow> nat \<Rightarrow> world \<Rightarrow> world" where
  "sleep ms lag w = w\<lparr>clock := clock w + ms + int lag\<rparr>"

text \<open>\<^verbatim>\<open>if (this.sessionId)\<close>: \<^verbatim>\<open>null\<close> and the empty string are falsy.\<close>

definition truthy_string :: "string option \<Rightarrow> bool" where
  "truthy_string s = (case s of None \<Rightarrow> False | Some t \<Rightarrow> t \<noteq> [])"

text \<open>\<^verbatim>\<open>if (this.lastRequestTime)\<close>: \<^verbatim>\<open>null\<close> and \<open>0\<close> are falsy.\<close>

definition truthy_time :: "int option \<Rightarrow> bool" where
  "truthy_time t = (case t of None \<Rightarrow> False | Some n \<Rightarrow> n \<noteq> 0)"

subsection \<open>Persistence\<close>

definition generateSessionId :: "string \<Rightarrow> string" where
  "generateSessionId suffix = ''embed_'' @ suffix"

definition saveProgress :: "bool \<Rightarrow> world \<Rightarrow> world" where
  "saveProgress set_ok w =
     (if \<not> truthy_string (sessionId w) then w
      else
        let progressData = \<lparr>
              saved_sessionId = sessionId w,
              saved_queue = Some (queue w),
              saved_originalPixels = Some (originalPixels w),
              saved_pixelsPlaced = pixelsPlaced w,
              saved_errors = errors w,
              saved_timestamp = clock w,
              saved_isActive = isPlacing w \<rparr>
        in if set_ok then w\<lparr>storage := Some (Saved progressData)\<rparr> else w)"

definition clearProgress :: "world \<Rightarrow> world" where
  "clearProgress w = w\<lparr>storage := None\<rparr>"

definition loadProgress :: "world \<Rightarrow> progressData option \<times> world" where
  "loadProgress w =
     (case storage w of
        None \<Rightarrow> (None, w)
      | Some Unparsable \<Rightarrow> (None, w)
      | Some (Saved data) \<Rightarrow>
          let hoursSinceLastSave = real_of_int (clock w - saved_timestamp data) / (1000 * 60 * 60)
          in if hoursSinceLastSave > 24 then (None, clearProgress w) else (Some data, w))"

definition checkForExistingSession :: "world \<Rightarrow> bool \<times> world" where
  "checkForExistingSession w =
     (let (saved, w1) = loadProgress w
      in case saved of
           None \<Rightarrow> (False, w1)
         | Some data \<Rightarrow>
             (case saved_queue data of
                None \<Rightarrow> (False, w1)
              | Some q \<Rightarrow> (length q > 0, w1)))"

definition clearSession :: "world \<Rightarrow> world" where
  "clearSession w =
     (clearProgress w)\<lparr>queue := [], originalPixels := [], pixelsPlaced := 0, errors := 0,
        sessionId := None, isPlacing := False\<rparr>"

text \<open>The constructor: the initial fields, then \<^verbatim>\<open>checkForExistingSession\<close> (which reads the
  store and may purge an expired checkpoint).\<close>

definition constructor :: "bool \<Rightarrow> slot option \<Rightarrow> int \<Rightarrow> world" where
  "constructor has_socket st now =
     snd (checkForExistingSession \<lparr>
       queue = [], isPlacing = False, pixelsPlaced = 0, errors = 0, currentCredits = None,
       sessionId = None, originalPixels = [], currentTier = ''Standard'', tierLogged = False,
       burstTracker = [], requestTimes = [], lastRequestTime = None, socket = has_socket,
       storage = st, clock = now \<rparr>)"

subsection \<open>Credits shown by the page\<close>

text \<open>\<^verbatim>\<open>getCurrentCredits\<close> scans the document for a credit count. The document is outside
  the program: \<open>page\<close> is what the two scans find (\<open>None\<close> when no element matches or the
  scan throws). A count that is found is cached in \<open>currentCredits\<close>.\<close>

definition getCurrentCredits :: "nat option \<Rightarrow> world \<Rightarrow> nat option \<times> world" where
  "getCurrentCredits page w =
     (case page of
        Some n \<Rightarrow> (Some n, w\<lparr>currentCredits := Some n\<rparr>)
      | None \<Rightarrow> (None, w))"

subsection \<open>The rate limiter\<close>

definition safeDelay :: "env \<Rightarrow> world \<Rightarrow> world" where
  "safeDelay e w =
     (let now = clock w;
          w1 = w\<lparr>requestTimes := filter (\<lambda>time. now - time < 60000) (requestTimes w),
                 burstTracker := filter (\<lambda>time. now - time < burstWindow) (burstTracker w)\<rparr>;
          w2 = (if length (burstTracker w1) \<ge> burstLimit then
                  let oldestBurst = min_list (burstTracker w1);
                      timeToWait = burstWindow - (now - oldestBurst) + burstSafetyBuffer
                  in if timeToWait > 0 then
                       let w' = sleep timeToWait (lag_burst e) w1
                       in w'\<lparr>burstTracker :=
                            filter (\<lambda>time. clock w' - time < burstWindow) (burstTracker w')\<rparr>
                     else w1
                else w1);
          w3 = (if truthy_time (lastRequestTime w2) then
                  let timeSinceLastRequest = now - the (lastRequestTime w2)
                  in if timeSinceLastRequest < universalDelay then
                       sleep (universalDelay - timeSinceLastRequest) (lag_spacing e) w2
                     else w2
                else w2);
          extraSafety = int (random100 e) + 50;
          w4 = sleep extraSafety (lag_extra e) w3
      in w4\<lparr>lastRequestTime := Some (clock w4)\<rparr>)"

text \<open>The time \<^verbatim>\<open>safeDelay\<close> asks its timers for: the arguments of its calls of
  \<^verbatim>\<open>sleep\<close>, added up.\<close>

definition safeDelay_wait :: "env \<Rightarrow> world \<Rightarrow> int" where
  "safeDelay_wait e w =
     (let now = clock w;
          tracker = filter (\<lambda>time. now - time < burstWindow) (burstTracker w);
          burst_wait = (if length tracker \<ge> burstLimit then
                          let timeToWait = burstWindow - (now - min_list tracker) + burstSafetyBuffer
                          in if timeToWait > 0 then timeToWait else 0
                        else 0);
          spacing_wait = (if truthy_time (lastRequestTime w) then
                            let timeSinceLastRequest = now - the (lastRequestTime w)
                            in if timeSinceLastRequest < universalDelay then
                                 universalDelay - timeSinceLastRequest
                               else 0
                          else 0)
      in burst_wait + spacing_wait + (int (random100 e) + 50))"

definition recordRequest :: "world \<Rightarrow> world" where
  "recordRequest w =
     (let now = clock w;
          w1 = w\<lparr>requestTimes := requestTimes w @ [now],
                 burstTracker := burstTracker w @ [now]\<rparr>
      in w1\<lparr>requestTimes := filter (\<lambda>time. now - time < 60000) (requestTimes w1),
             burstTracker := filter (\<lambda>time. now - time < burstWindow) (burstTracker w1)\<rparr>)"

subsection \<open>Sending one pixel\<close>

text \<open>\<^verbatim>\<open>placePixel\<close> settles once: the flag \<^verbatim>\<open>resolved\<close> lets the first of the success
  handlers, the error handlers and the 8s timeout win. The environment says after how long
  and how (a timeout is a rejection with the message of the timeout); a success handler
  calls \<^verbatim>\<open>recordRequest\<close> before it resolves. One call of \<^verbatim>\<open>placePixel\<close> counts as one
  send, although the socket fallback emits the pixel a second time when the page has not
  answered within 200ms. The coordinates and colour of the pixel only travel to the remote,
  whose answer is the environment's. While the loop waits, the user may call \<^verbatim>\<open>stop()\<close>,
  which clears \<open>isPlacing\<close>; here that is the only call that meets a suspended loop (for the
  others see \<open>deliver\<close>).\<close>

definition stop :: "world \<Rightarrow> world" where
  "stop w = w\<lparr>isPlacing := False\<rparr>"

definition await_settlement :: "env \<Rightarrow> world \<Rightarrow> world" where
  "await_settlement e w =
     (let w1 = w\<lparr>clock := clock w + int (latency e)\<rparr>
      in if stop_requested e then stop w1 else w1)"

definition placePixel :: "env \<Rightarrow> world \<Rightarrow> outcome \<times> world" where
  "placePixel e w =
     (let w1 = await_settlement e w
      in case answer e of
           Confirmed \<Rightarrow> (Confirmed, recordRequest w1)
         | Rejected message \<Rightarrow> (Rejected message, w1))"

subsection \<open>Strings of the error messages\<close>

text \<open>\<^verbatim>\<open>toLowerCase\<close> on the ASCII letters (a \<open>string\<close> is a list of bytes) and
  \<^verbatim>\<open>s.includes(t)\<close>: \<open>t\<close> occurs in \<open>s\<close> as a contiguous piece.\<close>

definition toLowerCase :: "string \<Rightarrow> string" where
  "toLowerCase s =
     map (\<lambda>c. case map_of (zip ''ABCDEFGHIJKLMNOPQRSTUVWXYZ'' ''abcdefghijklmnopqrstuvwxyz'') c of
                 Some l \<Rightarrow> l
               | None \<Rightarrow> c) s"

fun str_includes :: "string \<Rightarrow> string \<Rightarrow> bool" where
  "str_includes [] t = (t = [])"
| "str_includes (c # cs) t = (take (length t) (c # cs) = t \<or> str_includes cs t)"

subsection \<open>The dispatch loop\<close>

text \<open>The statements of the \<^verbatim>\<open>try\<close> block that follow a confirmed send.\<close>

definition after_confirmed :: "env \<Rightarrow> world \<Rightarrow> world" where
  "after_confirmed e w =
     (let w1 = w\<lparr>pixelsPlaced := pixelsPlaced w + 1\<rparr>;
          w2 = (if pixelsPlaced w1 mod 10 = 0 then saveProgress (save_ok e) w1 else w1)
      in if pixelsPlaced w2 mod 50 = 0 then snd (getCurrentCredits (page_credits e) w2) else w2)"

text \<open>The \<^verbatim>\<open>catch\<close> block, given the message of the error. The first component is whether
  it ends in \<^verbatim>\<open>break\<close>.\<close>

definition catch_block :: "env \<Rightarrow> string \<Rightarrow> world \<Rightarrow> bool \<times> world" where
  "catch_block e message w =
     (let w1 = w\<lparr>errors := errors w + 1\<rparr>;
          w2 = saveProgress (save_ok e) w1
      in if str_includes (toLowerCase message) ''burst limit'' then
           (False, sleep 15000 (lag_cooldown e) (w2\<lparr>burstTracker := []\<rparr>))
         else if str_includes (toLowerCase message) ''rate''
                 \<or> str_includes (toLowerCase message) ''limit'' then
           (False, sleep 10000 (lag_cooldown e) w2)
         else if str_includes (toLowerCase message) ''credit'' then
           (True, w2\<lparr>isPlacing := False\<rparr>)
         else
           (False, sleep 1000 (lag_cooldown e) w2))"

text \<open>One pass through the body of the \<^verbatim>\<open>while\<close> loop of \<^verbatim>\<open>processQueue\<close>, entered with
  a non-empty queue: \<^verbatim>\<open>shift\<close>, \<^verbatim>\<open>safeDelay\<close>, \<^verbatim>\<open>placePixel\<close>, then the rest of the
  \<^verbatim>\<open>try\<close> block or the \<^verbatim>\<open>catch\<close> block. The first component is whether the pass ended
  in \<^verbatim>\<open>break\<close>. This is the pass of a loop that is alone: the source suspends at every
  \<^verbatim>\<open>await\<close> (the sleeps of \<^verbatim>\<open>safeDelay\<close>, the send, the cooldown), and here nothing but
  \<^verbatim>\<open>stop()\<close> happens to the embedder at those points.\<close>

definition iteration :: "env \<Rightarrow> world \<Rightarrow> bool \<times> world" where
  "iteration e w =
     (let w1 = w\<lparr>queue := tl (queue w)\<rparr>;
          w2 = safeDelay e w1;
          (settled, w3) = placePixel e w2
      in case settled of
           Confirmed \<Rightarrow> (False, after_confirmed e w3)
         | Rejected message \<Rightarrow> catch_block e message w3)"

text \<open>The loop, driven by the environment's answers, one per iteration. When the answers
  run out before the loop has left, the result is the state at that iteration boundary.\<close>

fun run_loop :: "env list \<Rightarrow> world \<Rightarrow> world" where
  "run_loop [] w = w"
| "run_loop (e # es) w =
     (if queue w \<noteq> [] \<and> isPlacing w then
        (case iteration e w of
           (True, w') \<Rightarrow> w'
         | (False, w') \<Rightarrow> run_loop es w')
      else w)"

definition showSummary :: "nat option \<Rightarrow> world \<Rightarrow> world" where
  "showSummary page w = snd (getCurrentCredits page w)"

text \<open>What follows the loop in \<^verbatim>\<open>processQueue\<close>.\<close>

definition finish :: "bool \<Rightarrow> nat option \<Rightarrow> world \<Rightarrow> world" where
  "finish set_ok page w =
     (let w1 = w\<lparr>isPlacing := False\<rparr>;
          w2 = (if length (queue w1) = 0 then clearProgress w1 else saveProgress set_ok w1)
      in showSummary page w2)"

text \<open>\<^verbatim>\<open>processQueue\<close>: \<open>None\<close> when the answers \<open>es\<close> end before the loop does (the run is
  still going), otherwise the state in which \<^verbatim>\<open>processQueue\<close> returns.\<close>

definition processQueue :: "env list \<Rightarrow> bool \<Rightarrow> nat option \<Rightarrow> world \<Rightarrow> world option" where
  "processQueue es set_ok page w =
     (let w1 = run_loop es w
      in if queue w1 \<noteq> [] \<and> isPlacing w1 then None else Some (finish set_ok page w1))"

text \<open>\<^verbatim>\<open>embedImage\<close> up to its call of \<^verbatim>\<open>processQueue\<close>: whether it gets there, and the
  state.\<close>

definition embedImage_begin :: "start_env \<Rightarrow> pixel list \<Rightarrow> world \<Rightarrow> bool \<times> world" where
  "embedImage_begin p pixels w =
     (if isPlacing w then (False, w)
      else
        let w1 = (if socket w then sleep 300 (start_lag p) w else w)
        in if length pixels = 0 then (False, w1)
           else
             let (credits, w2) = getCurrentCredits (start_credits p) w1
             in if credits \<noteq> None \<and> the credits < length pixels \<and> \<not> start_confirm p
                then (False, w2)
                else
                  let w3 = w2\<lparr>sessionId := Some (generateSessionId (start_suffix p)),
                              originalPixels := pixels,
                              pixelsPlaced := 0,
                              errors := 0,
                              burstTracker := [],
                              lastRequestTime := None,
                              queue := pixels,
                              isPlacing := True\<rparr>
                  in (True, saveProgress (start_save_ok p) w3))"

definition embedImage ::
  "start_env \<Rightarrow> env list \<Rightarrow> bool \<Rightarrow> nat option \<Rightarrow> pixel list \<Rightarrow> world \<Rightarrow> world option" where
  "embedImage p es set_ok page pixels w =
     (case embedImage_begin p pixels w of
        (False, w') \<Rightarrow> Some w'
      | (True, w') \<Rightarrow> processQueue es set_ok page w')"

text \<open>\<^verbatim>\<open>resumeEmbedding\<close>: the value it returns and the state, \<open>None\<close> as for
  \<^verbatim>\<open>processQueue\<close>. \<open>proceed\<close> is the user's answer to the dialog.\<close>

definition resumeEmbedding ::
  "bool \<Rightarrow> env list \<Rightarrow> bool \<Rightarrow> nat option \<Rightarrow> world \<Rightarrow> (bool \<times> world) option" where
  "resumeEmbedding proceed es set_ok page w =
     (let (saved, w1) = loadProgress w
      in if saved = None \<or> saved_queue (the saved) = None
            \<or> length (the (saved_queue (the saved))) = 0
         then Some (False, w1)
         else if isPlacing w1 then Some (False, w1)
         else
           let w2 = w1\<lparr>sessionId := saved_sessionId (the saved),
                       queue := the (saved_queue (the saved)),
                       originalPixels := (case saved_originalPixels (the saved) of
                                            Some ps \<Rightarrow> ps | None \<Rightarrow> []),
                       pixelsPlaced := saved_pixelsPlaced (the saved),
                       errors := saved_errors (the saved)\<rparr>
           in if proceed then
                map_option (Pair True) (processQueue es set_ok page (w2\<lparr>isPlacing := True\<rparr>))
              else Some (False, w2))"

subsection \<open>Status\<close>

record status =
  st_isPlacing :: bool
  st_queueLength :: nat
  st_originalPixelsCount :: nat
  st_pixelsPlaced :: nat
  st_errors :: nat
  st_currentRate :: nat
  st_tier :: string
  st_burstUsed :: nat
  st_burstLimit :: nat
  st_credits :: "nat option"
  st_delay :: int
  st_sessionId :: "string option"
  st_hasResumableSession :: bool

definition getStatus :: "nat option \<Rightarrow> world \<Rightarrow> status \<times> world" where
  "getStatus page w =
     (let burstUsed = length (filter (\<lambda>time. clock w - time < burstWindow) (burstTracker w));
          (currentCredits, w1) = getCurrentCredits page w;
          (saved, w2) = loadProgress w1
      in (\<lparr> st_isPlacing = isPlacing w1,
             st_queueLength = length (queue w1),
             st_originalPixelsCount = length (originalPixels w1),
             st_pixelsPlaced = pixelsPlaced w1,
             st_errors = errors w1,
             st_currentRate = length (requestTimes w1),
             st_tier = currentTier w1,
             st_burstUsed = burstUsed,
             st_burstLimit = 15,
             st_credits = currentCredits,
             st_delay = universalDelay,
             st_sessionId = sessionId w1,
             st_hasResumableSession = (saved \<noteq> None) \<rparr>, w2))"

subsection \<open>What a run sends and records\<close>

text \<open>The times at which the loop calls \<^verbatim>\<open>placePixel\<close> (the clock when \<^verbatim>\<open>safeDelay\<close>
  returns), in order.\<close>

fun admissions :: "env list \<Rightarrow> world \<Rightarrow> int list" where
  "admissions [] w = []"
| "admissions (e # es) w =
     (if queue w \<noteq> [] \<and> isPlacing w then
        clock (safeDelay e (w\<lparr>queue := tl (queue w)\<rparr>))
          # (case iteration e w of
               (True, w') \<Rightarrow> []
             | (False, w') \<Rightarrow> admissions es w')
      else [])"

text \<open>The timestamps \<^verbatim>\<open>recordRequest\<close> pushes during the loop (the clock when a send is
  confirmed), in order.\<close>

fun confirmations :: "env list \<Rightarrow> world \<Rightarrow> int list" where
  "confirmations [] w = []"
| "confirmations (e # es) w =
     (if queue w \<noteq> [] \<and> isPlacing w then
        (case answer e of
           Confirmed \<Rightarrow>
             [clock (await_settlement e (safeDelay e (w\<lparr>queue := tl (queue w)\<rparr>)))]
         | Rejected message \<Rightarrow> [])
          @ (case iteration e w of
               (True, w') \<Rightarrow> []
             | (False, w') \<Rightarrow> confirmations es w')
      else [])"

text \<open>Every step is at least \<open>gap\<close> after the one before.\<close>

fun spaced :: "int \<Rightarrow> int list \<Rightarrow> bool" where
  "spaced gap [] = True"
| "spaced gap [a] = True"
| "spaced gap (a # b # ts) = (a + gap \<le> b \<and> spaced gap (b # ts))"

text \<open>How many of the timestamps lie in the window of length \<open>len\<close> that starts at \<open>t\<close>,
  both ends counted.\<close>

definition in_window :: "int \<Rightarrow> int \<Rightarrow> int list \<Rightarrow> nat" where
  "in_window t len ts = length (filter (\<lambda>r. t \<le> r \<and> r \<le> t + len) ts)"

subsection \<open>Several loops on one embedder\<close>

text \<open>Where a call of \<^verbatim>\<open>embedImage\<close> or \<^verbatim>\<open>processQueue\<close> is suspended, with the local
  variables it still needs and the time at which its timer is due.\<close>

datatype wait =
    BurstSleep int int   \<comment> \<open>\<^verbatim>\<open>safeDelay\<close> at \<^verbatim>\<open>await this.sleep(timeToWait)\<close>: its \<^verbatim>\<open>now\<close>, and when due\<close>
  | SpacingSleep int     \<comment> \<open>\<^verbatim>\<open>safeDelay\<close> at \<^verbatim>\<open>await this.sleep(waitTime)\<close>\<close>
  | ExtraSleep int       \<comment> \<open>\<^verbatim>\<open>safeDelay\<close> at \<^verbatim>\<open>await this.sleep(extraSafety)\<close>\<close>
  | Sending int          \<comment> \<open>\<^verbatim>\<open>placePixel\<close> called at this time and not settled\<close>
  | Cooldown int         \<comment> \<open>the \<^verbatim>\<open>catch\<close> block at its \<^verbatim>\<open>await this.sleep(...)\<close>\<close>
  | StartSleep int start_env "pixel list" \<comment> \<open>\<^verbatim>\<open>embedImage\<close> at \<^verbatim>\<open>await this.sleep(300)\<close>\<close>
  | Returned

text \<open>Where the code stands when a stretch of the loop body ends without suspending.\<close>

datatype control = Suspended wait | AtLoopTop | Break

text \<open>\<^verbatim>\<open>safeDelay\<close> from its start, from the spacing check (with its \<^verbatim>\<open>now\<close>) and from the
  extra delay, each up to the next \<^verbatim>\<open>await\<close>.\<close>

definition enter_extra :: "env \<Rightarrow> world \<Rightarrow> wait \<times> world" where
  "enter_extra e w =
     (let extraSafety = int (random100 e) + 50
      in (ExtraSleep (clock w + extraSafety), w))"

definition enter_spacing :: "env \<Rightarrow> int \<Rightarrow> world \<Rightarrow> wait \<times> world" where
  "enter_spacing e now w =
     (if truthy_time (lastRequestTime w) then
        let timeSinceLastRequest = now - the (lastRequestTime w)
        in if timeSinceLastRequest < universalDelay then
             (SpacingSleep (clock w + (universalDelay - timeSinceLastRequest)), w)
           else enter_extra e w
      else enter_extra e w)"

definition enter_safeDelay :: "env \<Rightarrow> world \<Rightarrow> wait \<times> world" where
  "enter_safeDelay e w =
     (let now = clock w;
          w1 = w\<lparr>requestTimes := filter (\<lambda>time. now - time < 60000) (requestTimes w),
                 burstTracker := filter (\<lambda>time. now - time < burstWindow) (burstTracker w)\<rparr>
      in if length (burstTracker w1) \<ge> burstLimit then
           let oldestBurst = min_list (burstTracker w1);
               timeToWait = burstWindow - (now - oldestBurst) + burstSafetyBuffer
           in if timeToWait > 0 then (BurstSleep now (clock w1 + timeToWait), w1)
              else enter_spacing e now w1
         else enter_spacing e now w1)"

text \<open>The loop of \<^verbatim>\<open>processQueue\<close> from the test of its condition: into the next pass, or
  out of the loop and through the rest of \<^verbatim>\<open>processQueue\<close>.\<close>

definition loop_top :: "env \<Rightarrow> world \<Rightarrow> wait \<times> world" where
  "loop_top e w =
     (if queue w \<noteq> [] \<and> isPlacing w then enter_safeDelay e (w\<lparr>queue := tl (queue w)\<rparr>)
      else (Returned, finish (save_ok e) (page_credits e) w))"

text \<open>The \<^verbatim>\<open>catch\<close> block up to its sleep or its \<^verbatim>\<open>break\<close>, and what follows the
  settlement of a send (a success handler has called \<^verbatim>\<open>recordRequest\<close> before).\<close>

definition catch_to_sleep :: "env \<Rightarrow> string \<Rightarrow> world \<Rightarrow> control \<times> world" where
  "catch_to_sleep e message w =
     (let w1 = w\<lparr>errors := errors w + 1\<rparr>;
          w2 = saveProgress (save_ok e) w1
      in if str_includes (toLowerCase message) ''burst limit'' then
           (Suspended (Cooldown (clock w2 + 15000)), w2\<lparr>burstTracker := []\<rparr>)
         else if str_includes (toLowerCase message) ''rate''
                 \<or> str_includes (toLowerCase message) ''limit'' then
           (Suspended (Cooldown (clock w2 + 10000)), w2)
         else if str_includes (toLowerCase message) ''credit'' then
           (Break, w2\<lparr>isPlacing := False\<rparr>)
         else
           (Suspended (Cooldown (clock w2 + 1000)), w2))"

definition after_answer :: "env \<Rightarrow> outcome \<Rightarrow> world \<Rightarrow> control \<times> world" where
  "after_answer e settled w =
     (case settled of
        Confirmed \<Rightarrow> (AtLoopTop, after_confirmed e w)
      | Rejected message \<Rightarrow> catch_to_sleep e message w)"

definition go_on :: "env \<Rightarrow> control \<times> world \<Rightarrow> wait \<times> world" where
  "go_on e r =
     (case fst r of
        Suspended wt \<Rightarrow> (wt, snd r)
      | AtLoopTop \<Rightarrow> loop_top e (snd r)
      | Break \<Rightarrow> (Returned, finish (save_ok e) (page_credits e) (snd r)))"

text \<open>\<^verbatim>\<open>embedImage\<close> after its guard and its sleep, and \<^verbatim>\<open>resumeEmbedding\<close>, both up to
  the call of \<^verbatim>\<open>processQueue\<close>: whether they get there, and the state.\<close>

definition embedImage_body :: "start_env \<Rightarrow> pixel list \<Rightarrow> world \<Rightarrow> bool \<times> world" where
  "embedImage_body p pixels w =
     (if length pixels = 0 then (False, w)
      else
        let (credits, w2) = getCurrentCredits (start_credits p) w
        in if credits \<noteq> None \<and> the credits < length pixels \<and> \<not> start_confirm p
           then (False, w2)
           else
             let w3 = w2\<lparr>sessionId := Some (generateSessionId (start_suffix p)),
                         originalPixels := pixels,
                         pixelsPlaced := 0,
                         errors := 0,
                         burstTracker := [],
                         lastRequestTime := None,
                         queue := pixels,
                         isPlacing := True\<rparr>
             in (True, saveProgress (start_save_ok p) w3))"

definition resumeEmbedding_begin :: "bool \<Rightarrow> world \<Rightarrow> bool \<times> world" where
  "resumeEmbedding_begin proceed w =
     (let (saved, w1) = loadProgress w
      in if saved = None \<or> saved_queue (the saved) = None
            \<or> length (the (saved_queue (the saved))) = 0
         then (False, w1)
         else if isPlacing w1 then (False, w1)
         else
           let w2 = w1\<lparr>sessionId := saved_sessionId (the saved),
                       queue := the (saved_queue (the saved)),
                       originalPixels := (case saved_originalPixels (the saved) of
                                            Some ps \<Rightarrow> ps | None \<Rightarrow> []),
                       pixelsPlaced := saved_pixelsPlaced (the saved),
                       errors := saved_errors (the saved)\<rparr>
           in if proceed then (True, w2\<lparr>isPlacing := True\<rparr>) else (False, w2))"

definition started :: "env \<Rightarrow> bool \<times> world \<Rightarrow> wait \<times> world" where
  "started e r = (if fst r then loop_top e (snd r) else (Returned, snd r))"

text \<open>What a suspended call does when its timer fires, up to the next \<^verbatim>\<open>await\<close>.\<close>

definition after_timer :: "env \<Rightarrow> wait \<Rightarrow> world \<Rightarrow> wait \<times> world" where
  "after_timer e wt w =
     (case wt of
        BurstSleep now due \<Rightarrow>
          enter_spacing e now
            (w\<lparr>burstTracker := filter (\<lambda>time. clock w - time < burstWindow) (burstTracker w)\<rparr>)
      | SpacingSleep due \<Rightarrow> enter_extra e w
      | ExtraSleep due \<Rightarrow> (Sending (clock w), w\<lparr>lastRequestTime := Some (clock w)\<rparr>)
      | Cooldown due \<Rightarrow> loop_top e w
      | StartSleep due p pixels \<Rightarrow> started e (embedImage_body p pixels w)
      | Sending t \<Rightarrow> (wt, w)
      | Returned \<Rightarrow> (wt, w))"

fun timer_due :: "wait \<Rightarrow> int option" where
  "timer_due (BurstSleep now due) = Some due"
| "timer_due (SpacingSleep due) = Some due"
| "timer_due (ExtraSleep due) = Some due"
| "timer_due (Cooldown due) = Some due"
| "timer_due (StartSleep due p pixels) = Some due"
| "timer_due (Sending t) = None"
| "timer_due Returned = None"

text \<open>The embedder with the calls suspended on it. \<open>pending\<close> lists the calls whose send
  is not settled, oldest first: their handlers are all registered on the same events.\<close>

record machine =
  shared :: world
  tasks :: "wait list"
  pending :: "nat list"

text \<open>What the event loop delivers: the timer of a suspended call; a success or error event
  of the page or the socket, which reaches the handlers of every unsettled send; the 8s
  timeout of a send; a call by the user. An occurrence is an event with its time and with
  what the code that it sets off draws from outside (\<open>random100\<close>, \<open>save_ok\<close> and
  \<open>page_credits\<close> of \<open>draws\<close>; the other fields of \<open>env\<close> are not read here).\<close>

datatype event =
    Timer nat
  | Answer outcome
  | Timeout nat
  | CallStop
  | CallEmbedImage start_env "pixel list"
  | CallResume bool
  | CallClearSession

record occurrence =
  at_time :: int
  what :: event
  draws :: env

definition put_task :: "nat \<Rightarrow> wait \<times> world \<Rightarrow> machine \<Rightarrow> machine" where
  "put_task i r m =
     m\<lparr>shared := snd r,
       tasks := (tasks m)[i := fst r],
       pending := (case fst r of Sending t \<Rightarrow> pending m @ [i] | _ \<Rightarrow> pending m)\<rparr>"

definition spawn :: "wait \<times> world \<Rightarrow> machine \<Rightarrow> machine" where
  "spawn r m = m\<lparr>shared := snd r, tasks := tasks m @ [fst r]\<rparr>"

definition settle :: "env \<Rightarrow> outcome \<Rightarrow> nat \<Rightarrow> machine \<Rightarrow> machine" where
  "settle e settled i m = put_task i (go_on e (after_answer e settled (shared m))) m"

text \<open>A success or error event: the handlers of all unsettled sends run first (each success
  handler calls \<^verbatim>\<open>recordRequest\<close>), then the loops continue in the order of their sends.\<close>

definition answer_all :: "env \<Rightarrow> outcome \<Rightarrow> machine \<Rightarrow> machine" where
  "answer_all e settled m =
     (let ids = pending m;
          w1 = (case settled of
                  Confirmed \<Rightarrow> fold (\<lambda>i w. recordRequest w) ids (shared m)
                | Rejected message \<Rightarrow> shared m)
      in fold (settle e settled) ids (m\<lparr>shared := w1, pending := []\<rparr>))"

definition call_embedImage :: "env \<Rightarrow> start_env \<Rightarrow> pixel list \<Rightarrow> machine \<Rightarrow> machine" where
  "call_embedImage e p pixels m =
     (if isPlacing (shared m) then m
      else if socket (shared m) then
        spawn (StartSleep (clock (shared m) + 300) p pixels, shared m) m
      else spawn (started e (embedImage_body p pixels (shared m))) m)"

definition call_resumeEmbedding :: "env \<Rightarrow> bool \<Rightarrow> machine \<Rightarrow> machine" where
  "call_resumeEmbedding e proceed m =
     (let r = resumeEmbedding_begin proceed (shared m)
      in if fst r then spawn (loop_top e (snd r)) m else m\<lparr>shared := snd r\<rparr>)"

text \<open>One occurrence. \<open>None\<close> when the environment cannot do that: time does not go back,
  a timer does not fire before it is due, and only an unsettled send can time out.\<close>

definition deliver :: "occurrence \<Rightarrow> machine \<Rightarrow> machine option" where
  "deliver oc m =
     (if at_time oc < clock (shared m) then None
      else
        let m1 = m\<lparr>shared := (shared m)\<lparr>clock := at_time oc\<rparr>\<rparr>;
            e = draws oc
        in case what oc of
             Timer i \<Rightarrow>
               (if i < length (tasks m1) then
                  (case timer_due (tasks m1 ! i) of
                     Some due \<Rightarrow>
                       if due \<le> at_time oc
                       then Some (put_task i (after_timer e (tasks m1 ! i) (shared m1)) m1)
                       else None
                   | None \<Rightarrow> None)
                else None)
           | Answer settled \<Rightarrow> Some (answer_all e settled m1)
           | Timeout i \<Rightarrow>
               (if i \<in> set (pending m1) \<and> i < length (tasks m1) then
                  (case tasks m1 ! i of
                     Sending t \<Rightarrow>
                       if t + 8000 \<le> at_time oc
                       then Some (settle e (Rejected ''Pixel placement timeout'') i
                                    (m1\<lparr>pending := removeAll i (pending m1)\<rparr>))
                       else None
                   | _ \<Rightarrow> None)
                else None)
           | CallStop \<Rightarrow> Some (m1\<lparr>shared := stop (shared m1)\<rparr>)
           | CallEmbedImage p pixels \<Rightarrow> Some (call_embedImage e p pixels m1)
           | CallResume proceed \<Rightarrow> Some (call_resumeEmbedding e proceed m1)
           | CallClearSession \<Rightarrow> Some (m1\<lparr>shared := clearSession (shared m1)\<rparr>))"

definition deliver_all :: "occurrence list \<Rightarrow> machine \<Rightarrow> machine option" where
  "deliver_all ocs m =
     fold (\<lambda>oc r. case r of None \<Rightarrow> None | Some m' \<Rightarrow> deliver oc m') ocs (Some m)"

definition boot :: "world \<Rightarrow> machine" where
  "boot w = \<lparr> shared = w, tasks = [], pending = [] \<rparr>"

text \<open>One loop alone: the timer of the suspended code is the next thing that happens,
  \<open>lag\<close> late. \<open>solo_safeDelay\<close> and \<open>solo_pass\<close> go through \<^verbatim>\<open>safeDelay\<close> and through a pass
  of the loop in this way, with the lags, the latency and the answer of \<open>e\<close>.\<close>

definition late :: "nat \<Rightarrow> env \<Rightarrow> wait \<times> world \<Rightarrow> wait \<times> world" where
  "late lag e r =
     (case timer_due (fst r) of
        Some due \<Rightarrow> after_timer e (fst r) ((snd r)\<lparr>clock := due + int lag\<rparr>)
      | None \<Rightarrow> r)"

definition solo_safeDelay :: "env \<Rightarrow> world \<Rightarrow> wait \<times> world" where
  "solo_safeDelay e w =
     (let r0 = enter_safeDelay e w;
          r1 = (case fst r0 of BurstSleep now due \<Rightarrow> late (lag_burst e) e r0 | _ \<Rightarrow> r0);
          r2 = (case fst r1 of SpacingSleep due \<Rightarrow> late (lag_spacing e) e r1 | _ \<Rightarrow> r1)
      in late (lag_extra e) e r2)"

definition solo_pass :: "env \<Rightarrow> world \<Rightarrow> bool \<times> world" where
  "solo_pass e w =
     (let w2 = snd (solo_safeDelay e (w\<lparr>queue := tl (queue w)\<rparr>));
          w3 = await_settlement e w2;
          w4 = (case answer e of Confirmed \<Rightarrow> recordRequest w3 | Rejected message \<Rightarrow> w3);
          r = after_answer e (answer e) w4
      in case fst r of
           Suspended wt \<Rightarrow>
             (False, (snd r)\<lparr>clock := the (timer_due wt) + int (lag_cooldown e)\<rparr>)
         | AtLoopTop \<Rightarrow> (False, snd r)
         | Break \<Rightarrow> (True, snd r))"

subsection \<open>A checkpoint past its 24 hours\<close>

definition checkpoint_expired :: "world \<Rightarrow> bool" where
  "checkpoint_expired w =
     (case storage w of
        Some (Saved data) \<Rightarrow> clock w - saved_timestamp data > 86400000
      | _ \<Rightarrow> False)"

subsection \<open>Predicates of the properties\<close>

text \<open>The accounting of a run: what was placed, what failed and what is still queued make up
  the original list, and the queue is what is left of it, in order.\<close>

definition conserved :: "world \<Rightarrow> bool" where
  "conserved w =
     (pixelsPlaced w + errors w + length (queue w) = length (originalPixels w)
      \<and> queue w = drop (pixelsPlaced w + errors w) (originalPixels w))"

text \<open>The messages that take the branch "Out of credits" of the \<^verbatim>\<open>catch\<close> block.\<close>

definition credit_error :: "string \<Rightarrow> bool" where
  "credit_error message =
     (\<not> str_includes (toLowerCase message) ''burst limit''
      \<and> \<not> (str_includes (toLowerCase message) ''rate''
            \<or> str_includes (toLowerCase message) ''limit'')
      \<and> str_includes (toLowerCase message) ''credit'')"

text \<open>A list \<open>H\<close> of timestamps is tracked by the burst log: none of them lies in the future,
  and those still inside the burst window are exactly the entries of the log that are.\<close>

definition tracks :: "int list \<Rightarrow> world \<Rightarrow> bool" where
  "tracks H w =
     ((\<forall>r\<in>set H. r \<le> clock w)
      \<and> filter (\<lambda>t. clock w - t < burstWindow) H
          = filter (\<lambda>t. clock w - t < burstWindow) (burstTracker w))"

text \<open>The invariant behind the rate bound: the confirmations so far are tracked, the log is
  within the quota, and no window holds more confirmations than the quota.\<close>

definition rate_inv :: "int list \<Rightarrow> world \<Rightarrow> bool" where
  "rate_inv H w =
     (tracks H w \<and> length (burstTracker w) \<le> burstLimit
      \<and> (\<forall>t. in_window t burstWindow H \<le> burstLimit))"

text \<open>The log of a sequential run is paced: its entries are at least 50ms apart (every
  confirmation follows a \<^verbatim>\<open>safeDelay\<close> of its own, which sleeps 50ms or more), and neither
  the entries nor \<open>lastRequestTime\<close> lie in the future.\<close>

definition paced :: "world \<Rightarrow> bool" where
  "paced w =
     (spaced 50 (burstTracker w)
      \<and> (\<forall>r\<in>set (burstTracker w). r \<le> clock w)
      \<and> (\<forall>t. lastRequestTime w = Some t \<longrightarrow> t \<le> clock w))"

subsection \<open>Concrete states\<close>

text \<open>A freshly built embedder with an empty store, one second after the epoch.\<close>

definition idle_world :: world where
  "idle_world = \<lparr>
       queue = [], isPlacing = False, pixelsPlaced = 0, errors = 0, currentCredits = None,
       sessionId = None, originalPixels = [], currentTier = ''Standard'', tierLogged = False,
       burstTracker = [], requestTimes = [], lastRequestTime = None, socket = False,
       storage = None, clock = 1000 \<rparr>"

text \<open>The checkpoint \<^verbatim>\<open>saveProgress\<close> writes after the only pixel of a batch was placed:
  its queue is empty.\<close>

definition drained_checkpoint :: progressData where
  "drained_checkpoint = \<lparr>
       saved_sessionId = Some ''embed_1_abc'', saved_queue = Some [],
       saved_originalPixels = Some [Pixel 0 0 ''#FFFFFF''], saved_pixelsPlaced = 1,
       saved_errors = 0, saved_timestamp = 1000, saved_isActive = True \<rparr>"

text \<open>That checkpoint in the store, one second old, and 24 hours and one second old.\<close>

definition drained_world :: world where
  "drained_world = idle_world\<lparr>storage := Some (Saved drained_checkpoint), clock := 2000\<rparr>"

definition stale_world :: world where
  "stale_world = idle_world\<lparr>storage := Some (Saved drained_checkpoint), clock := 86401001\<rparr>"

text \<open>An environment that confirms a send at once, and one that rejects it for lack of
  credits.\<close>

definition confirming :: env where
  "confirming = \<lparr> random100 = 0, lag_burst = 0, lag_spacing = 0, lag_extra = 0, latency = 0,
     answer = Confirmed, stop_requested = False, save_ok = True, page_credits = None,
     lag_cooldown = 0 \<rparr>"

definition out_of_credits :: env where
  "out_of_credits = confirming\<lparr>answer := Rejected ''Insufficient credits''\<rparr>"

definition first_start :: start_env where
  "first_start = \<lparr> start_lag = 0, start_credits = None, start_confirm = True,
     start_suffix = ''1000_k3j9x2m1q'', start_save_ok = True \<rparr>"

definition white :: pixel where "white = Pixel 100 100 ''#FFFFFF''"

text \<open>The state in which \<^verbatim>\<open>embedImage\<close> enters \<^verbatim>\<open>processQueue\<close> with two pixels.\<close>

definition two_started :: world where
  "two_started = snd (embedImage_begin first_start [white, white] idle_world)"

text \<open>The state in which \<^verbatim>\<open>embedImage\<close> enters \<^verbatim>\<open>processQueue\<close> with sixteen pixels, one
  more than the burst quota.\<close>

definition sixteen_started :: world where
  "sixteen_started = snd (embedImage_begin first_start (replicate 16 white) idle_world)"


text \<open>An environment whose send is confirmed after five seconds.\<close>

definition slow_confirming :: env where
  "slow_confirming = confirming\<lparr>latency := 5000\<rparr>"

text \<open>An occurrence whose code draws what \<open>confirming\<close> holds.\<close>

definition occ :: "int \<times> event \<Rightarrow> occurrence" where
  "occ p = \<lparr>at_time = fst p, what = snd p, draws = confirming\<rparr>"

text \<open>What happens to a run of sixteen pixels or more, started at 1000 on \<open>idle_world\<close>, up to
  8000 when every timer is punctual and every send is confirmed in the millisecond it is
  made: fifteen sends, 450ms apart; the sixteenth pass is then in its burst-protection sleep
  until 13050.\<close>

definition one_loop_until_8000 :: "(int \<times> event) list" where
  "one_loop_until_8000 =
     [(1050, Timer 0), (1050, Answer Confirmed), (1450, Timer 0),
      (1500, Timer 0), (1500, Answer Confirmed), (1900, Timer 0),
      (1950, Timer 0), (1950, Answer Confirmed), (2350, Timer 0),
      (2400, Timer 0), (2400, Answer Confirmed), (2800, Timer 0),
      (2850, Timer 0), (2850, Answer Confirmed), (3250, Timer 0),
      (3300, Timer 0), (3300, Answer Confirmed), (3700, Timer 0),
      (3750, Timer 0), (3750, Answer Confirmed), (4150, Timer 0),
      (4200, Timer 0), (4200, Answer Confirmed), (4600, Timer 0),
      (4650, Timer 0), (4650, Answer Confirmed), (5050, Timer 0),
      (5100, Timer 0), (5100, Answer Confirmed), (5500, Timer 0),
      (5550, Timer 0), (5550, Answer Confirmed), (5950, Timer 0),
      (6000, Timer 0), (6000, Answer Confirmed), (6400, Timer 0),
      (6450, Timer 0), (6450, Answer Confirmed), (6850, Timer 0),
      (6900, Timer 0), (6900, Answer Confirmed), (7300, Timer 0),
      (7350, Timer 0), (7350, Answer Confirmed)]"

text \<open>At 8000 the user calls \<^verbatim>\<open>stop()\<close> and then \<^verbatim>\<open>resumeEmbedding()\<close>, and confirms the
  dialog.\<close>

definition stop_then_resume :: "(int \<times> event) list" where
  "stop_then_resume = [(8000, CallStop), (8000, CallResume True)]"

text \<open>What follows, again with punctual timers and immediate confirmations, for the two
  loops that are then suspended (calls 0 and 1): up to 14450, and from there to 18900.\<close>

definition two_loops_until_14450 :: "(int \<times> event) list" where
  "two_loops_until_14450 =
     [(13050, Timer 0), (13050, Timer 1), (13100, Timer 1),
      (13100, Answer Confirmed), (13450, Timer 0), (13500, Timer 0),
      (13500, Answer Confirmed), (13500, Timer 1), (13550, Timer 1),
      (13550, Answer Confirmed), (13900, Timer 0), (13950, Timer 0),
      (13950, Answer Confirmed), (13950, Timer 1), (14000, Timer 1),
      (14000, Answer Confirmed), (14350, Timer 0), (14400, Timer 0),
      (14400, Answer Confirmed), (14400, Timer 1), (14450, Timer 1),
      (14450, Answer Confirmed)]"

definition two_loops_until_18900 :: "(int \<times> event) list" where
  "two_loops_until_18900 =
     [(14800, Timer 0), (14850, Timer 0),
      (14850, Answer Confirmed), (14850, Timer 1), (14900, Timer 1),
      (14900, Answer Confirmed), (15250, Timer 0), (15300, Timer 0),
      (15300, Answer Confirmed), (17100, Timer 1), (17550, Timer 0),
      (17900, Timer 1), (17950, Timer 0), (17950, Timer 1),
      (17950, Answer Confirmed), (18000, Timer 0), (18000, Answer Confirmed),
      (18350, Timer 1), (18400, Timer 0), (18400, Timer 1),
      (18400, Answer Confirmed), (18450, Timer 0), (18450, Answer Confirmed),
      (18800, Timer 1), (18850, Timer 0), (18850, Timer 1),
      (18850, Answer Confirmed), (18900, Timer 0), (18900, Answer Confirmed)]"

text \<open>Two runs of fifteen pixels, the second started when the first returns.\<close>

definition fifteen_started :: world where
  "fifteen_started = snd (embedImage_begin first_start (replicate 15 white) idle_world)"

definition first_run_done :: world where
  "first_run_done =
     the (embedImage first_start (replicate 15 confirming) True None (replicate 15 white) idle_world)"

definition second_started :: world where
  "second_started = snd (embedImage_begin first_start (replicate 15 white) first_run_done)"

section \<open>Properties\<close>

subsection \<open>Persistence\<close>

lemma expired_iff: "(real_of_int d / (1000 * 60 * 60) > 24) = (d > 86400000)"
proof -
  have "(real_of_int d / (1000 * 60 * 60) > 24) = (real_of_int d > 86400000)"
    by (simp add: field_simps)
  also have "\<dots> = (d > 86400000)"
    by linarith
  finally show ?thesis .
qed

lemma loadProgress_Saved:
  "storage w = Some (Saved data) \<Longrightarrow>
     loadProgress w =
       (if clock w - saved_timestamp data > 86400000 then (None, clearProgress w)
        else (Some data, w))"
  by (simp add: loadProgress_def Let_def expired_iff)

lemma loadProgress_None: "storage w = None \<Longrightarrow> loadProgress w = (None, w)"
  by (simp add: loadProgress_def)

lemma loadProgress_world:
  "snd (loadProgress w) = w\<lparr>storage := (if checkpoint_expired w then None else storage w)\<rparr>"
  by (simp add: loadProgress_def checkpoint_expired_def clearProgress_def Let_def expired_iff
      split: option.splits slot.splits)

lemma getCurrentCredits_eq:
  "getCurrentCredits page w =
     (page, w\<lparr>currentCredits := (case page of Some n \<Rightarrow> Some n | None \<Rightarrow> currentCredits w)\<rparr>)"
  by (cases page) (simp_all add: getCurrentCredits_def)

text \<open>
  C10. Without a session (\<open>sessionId\<close> is \<^verbatim>\<open>null\<close>) \<^verbatim>\<open>saveProgress\<close> changes nothing, the
  store included, whether or not \<^verbatim>\<open>setItem\<close> would succeed. This is the situation after
  \<^verbatim>\<open>clearSession\<close>, which also leaves the store empty, and of an embedder that has just been
  constructed.
\<close>

theorem saveProgress_needs_session:
  "(sessionId w = None \<longrightarrow> saveProgress set_ok w = w)
   \<and> saveProgress set_ok (clearSession w) = clearSession w
   \<and> storage (clearSession w) = None
   \<and> sessionId (constructor has_socket st now) = None"
  by (auto simp: saveProgress_def truthy_string_def clearSession_def clearProgress_def
      constructor_def checkForExistingSession_def loadProgress_def Let_def
      split: option.splits slot.splits prod.splits)

theorem saveProgress_needs_session_witness:
  "sessionId idle_world = None \<and> saveProgress True idle_world = idle_world
    \<and> storage (saveProgress True idle_world) = None"
proof -
  have h: "sessionId idle_world = None" by (simp add: idle_world_def)
  have "saveProgress True idle_world = idle_world"
    using saveProgress_needs_session [where w = idle_world and set_ok = True] h by blast
  moreover have "storage idle_world = None" by (simp add: idle_world_def)
  ultimately show ?thesis using h by simp
qed

text \<open>
  C4. When the stored checkpoint is more than 24 hours old, \<^verbatim>\<open>loadProgress\<close> returns
  \<^verbatim>\<open>null\<close> and removes the record from the store, touching no field of the embedder; a
  later \<^verbatim>\<open>loadProgress\<close>, at whatever time, returns \<^verbatim>\<open>null\<close> again.
\<close>

theorem loadProgress_expired:
  "storage w = Some (Saved data) \<Longrightarrow> clock w - saved_timestamp data > 24 * 60 * 60 * 1000 \<Longrightarrow>
     loadProgress w = (None, clearProgress w)
     \<and> storage (clearProgress w) = None
     \<and> embedder.truncate (clearProgress w) = embedder.truncate w
     \<and> fst (loadProgress ((clearProgress w)\<lparr>clock := later\<rparr>)) = None"
  by (simp add: loadProgress_Saved loadProgress_None clearProgress_def embedder.truncate_def)

theorem loadProgress_expired_witness:
  "storage stale_world = Some (Saved drained_checkpoint)
   \<and> clock stale_world - saved_timestamp drained_checkpoint > 24 * 60 * 60 * 1000
   \<and> loadProgress stale_world = (None, clearProgress stale_world)
   \<and> fst (loadProgress ((clearProgress stale_world)\<lparr>clock := 86401002\<rparr>)) = None"
proof -
  have a: "storage stale_world = Some (Saved drained_checkpoint)"
    by (simp add: stale_world_def)
  have b: "clock stale_world - saved_timestamp drained_checkpoint > 24 * 60 * 60 * 1000"
    by (simp add: stale_world_def drained_checkpoint_def)
  show ?thesis
    using loadProgress_expired [OF a b, of 86401002] a b by simp
qed

text \<open>
  C7, as stated, fails: \<^verbatim>\<open>resumeEmbedding\<close> on a stored checkpoint with an empty queue takes
  the branch "No session to resume" and returns \<^verbatim>\<open>false\<close>; the checkpoint is still in the
  store afterwards.
\<close>

theorem resume_drained_keeps_checkpoint:
  "resumeEmbedding True [] True None drained_world = Some (False, drained_world)
   \<and> storage drained_world = Some (Saved drained_checkpoint)"
  by (simp add: resumeEmbedding_def loadProgress_def Let_def drained_world_def
      drained_checkpoint_def idle_world_def)

text \<open>
  C7, amended. On a stored checkpoint with an empty queue \<^verbatim>\<open>resumeEmbedding\<close> returns
  \<^verbatim>\<open>false\<close> at once: it never reaches \<^verbatim>\<open>processQueue\<close>, so nothing is sent and no field of
  the embedder changes, whatever the environment would have answered. The resume does not
  purge the checkpoint: the world is returned as it was, except that a checkpoint older
  than 24 hours is removed by \<^verbatim>\<open>loadProgress\<close>.
\<close>

theorem resume_drained:
  "storage w = Some (Saved data) \<Longrightarrow> saved_queue data = Some [] \<Longrightarrow>
     resumeEmbedding proceed es set_ok page w =
       Some (False, if clock w - saved_timestamp data > 86400000 then clearProgress w else w)"
  by (simp add: resumeEmbedding_def loadProgress_Saved)

theorem resume_drained_witness:
  "storage drained_world = Some (Saved drained_checkpoint)
   \<and> saved_queue drained_checkpoint = Some []
   \<and> resumeEmbedding True [] True None drained_world = Some (False, drained_world)"
proof -
  have a: "storage drained_world = Some (Saved drained_checkpoint)"
    by (simp add: drained_world_def)
  have b: "saved_queue drained_checkpoint = Some []"
    by (simp add: drained_checkpoint_def)
  have c: "\<not> clock drained_world - saved_timestamp drained_checkpoint > 86400000"
    by (simp add: drained_world_def drained_checkpoint_def)
  show ?thesis
    using resume_drained [OF a b, of True "[]" True None] a b c by simp
qed

subsection \<open>Status\<close>

text \<open>
  C8, as stated, fails: \<^verbatim>\<open>getStatus\<close> calls \<^verbatim>\<open>getCurrentCredits\<close>, which stores the count
  it finds in \<open>currentCredits\<close>, and \<^verbatim>\<open>loadProgress\<close>, which removes an expired checkpoint.
  With a page that shows 5 credits and a store holding a checkpoint older than 24 hours,
  both the embedder and the store differ after the call.
\<close>

theorem getStatus_changes_state:
  "currentCredits (snd (getStatus (Some 5) stale_world)) \<noteq> currentCredits stale_world
   \<and> storage (snd (getStatus (Some 5) stale_world)) \<noteq> storage stale_world"
  by (simp add: getStatus_def getCurrentCredits_def loadProgress_def Let_def clearProgress_def
      stale_world_def drained_checkpoint_def idle_world_def)

text \<open>
  C8, amended. \<^verbatim>\<open>getStatus\<close> returns the status record computed from the current fields
  and changes nothing but two things: \<open>currentCredits\<close> becomes the count shown by the page
  when there is one, and a checkpoint older than 24 hours is removed from the store. Every
  other field, the clock and an unexpired checkpoint are as before.
\<close>

theorem getStatus_frame:
  "snd (getStatus page w) =
     w\<lparr>currentCredits := (case page of Some n \<Rightarrow> Some n | None \<Rightarrow> currentCredits w),
       storage := (if checkpoint_expired w then None else storage w)\<rparr>
   \<and> fst (getStatus page w) =
     \<lparr> st_isPlacing = isPlacing w,
       st_queueLength = length (queue w),
       st_originalPixelsCount = length (originalPixels w),
       st_pixelsPlaced = pixelsPlaced w,
       st_errors = errors w,
       st_currentRate = length (requestTimes w),
       st_tier = currentTier w,
       st_burstUsed = length (filter (\<lambda>time. clock w - time < 10000) (burstTracker w)),
       st_burstLimit = 15,
       st_credits = page,
       st_delay = 400,
       st_sessionId = sessionId w,
       st_hasResumableSession =
         (case storage w of
            Some (Saved data) \<Rightarrow> \<not> clock w - saved_timestamp data > 86400000
          | _ \<Rightarrow> False) \<rparr>"
proof -
  have s: "snd (getStatus page w) = snd (loadProgress (snd (getCurrentCredits page w)))"
    by (simp add: getStatus_def Let_def split: prod.splits)
  have e: "checkpoint_expired (snd (getCurrentCredits page w)) = checkpoint_expired w"
    by (simp add: getCurrentCredits_eq checkpoint_expired_def split: option.splits slot.splits)
  have 1: "snd (getStatus page w) =
     w\<lparr>currentCredits := (case page of Some n \<Rightarrow> Some n | None \<Rightarrow> currentCredits w),
       storage := (if checkpoint_expired w then None else storage w)\<rparr>"
    unfolding s loadProgress_world e by (simp add: getCurrentCredits_eq)
  have 2: "fst (getStatus page w) = \<lparr> st_isPlacing = isPlacing w,
       st_queueLength = length (queue w),
       st_originalPixelsCount = length (originalPixels w),
       st_pixelsPlaced = pixelsPlaced w,
       st_errors = errors w,
       st_currentRate = length (requestTimes w),
       st_tier = currentTier w,
       st_burstUsed = length (filter (\<lambda>time. clock w - time < 10000) (burstTracker w)),
       st_burstLimit = 15,
       st_credits = page,
       st_delay = 400,
       st_sessionId = sessionId w,
       st_hasResumableSession =
         (case storage w of
            Some (Saved data) \<Rightarrow> \<not> clock w - saved_timestamp data > 86400000
          | _ \<Rightarrow> False) \<rparr>"
    by (simp add: getStatus_def getCurrentCredits_eq loadProgress_def Let_def expired_iff
        burstWindow_def universalDelay_def split: prod.splits option.splits slot.splits)
  from 1 2 show ?thesis by simp
qed

theorem getStatus_frame_witness:
  "snd (getStatus None drained_world) = drained_world
   \<and> st_hasResumableSession (fst (getStatus None drained_world))"
proof -
  have "\<not> checkpoint_expired drained_world"
    by (simp add: checkpoint_expired_def drained_world_def drained_checkpoint_def)
  then show ?thesis
    using getStatus_frame [of None drained_world]
    by (simp add: drained_world_def drained_checkpoint_def)
qed

subsection \<open>What each operation leaves alone\<close>

lemma safeDelay_frame:
  "queue (safeDelay e w) = queue w"
  "isPlacing (safeDelay e w) = isPlacing w"
  "pixelsPlaced (safeDelay e w) = pixelsPlaced w"
  "errors (safeDelay e w) = errors w"
  "originalPixels (safeDelay e w) = originalPixels w"
  "sessionId (safeDelay e w) = sessionId w"
  "storage (safeDelay e w) = storage w"
  by (simp_all add: safeDelay_def Let_def sleep_def)

lemma recordRequest_frame:
  "queue (recordRequest w) = queue w"
  "isPlacing (recordRequest w) = isPlacing w"
  "pixelsPlaced (recordRequest w) = pixelsPlaced w"
  "errors (recordRequest w) = errors w"
  "originalPixels (recordRequest w) = originalPixels w"
  "sessionId (recordRequest w) = sessionId w"
  "storage (recordRequest w) = storage w"
  "clock (recordRequest w) = clock w"
  "lastRequestTime (recordRequest w) = lastRequestTime w"
  by (simp_all add: recordRequest_def Let_def)

lemma await_settlement_frame:
  "queue (await_settlement e w) = queue w"
  "isPlacing (await_settlement e w) = (isPlacing w \<and> \<not> stop_requested e)"
  "pixelsPlaced (await_settlement e w) = pixelsPlaced w"
  "errors (await_settlement e w) = errors w"
  "originalPixels (await_settlement e w) = originalPixels w"
  "sessionId (await_settlement e w) = sessionId w"
  "storage (await_settlement e w) = storage w"
  "clock (await_settlement e w) = clock w + int (latency e)"
  "burstTracker (await_settlement e w) = burstTracker w"
  "lastRequestTime (await_settlement e w) = lastRequestTime w"
  by (simp_all add: await_settlement_def Let_def stop_def)

lemma saveProgress_frame:
  "queue (saveProgress ok w) = queue w"
  "isPlacing (saveProgress ok w) = isPlacing w"
  "pixelsPlaced (saveProgress ok w) = pixelsPlaced w"
  "errors (saveProgress ok w) = errors w"
  "originalPixels (saveProgress ok w) = originalPixels w"
  "sessionId (saveProgress ok w) = sessionId w"
  "clock (saveProgress ok w) = clock w"
  "burstTracker (saveProgress ok w) = burstTracker w"
  "lastRequestTime (saveProgress ok w) = lastRequestTime w"
  by (simp_all add: saveProgress_def Let_def)

lemma getCurrentCredits_frame:
  "queue (snd (getCurrentCredits page w)) = queue w"
  "isPlacing (snd (getCurrentCredits page w)) = isPlacing w"
  "pixelsPlaced (snd (getCurrentCredits page w)) = pixelsPlaced w"
  "errors (snd (getCurrentCredits page w)) = errors w"
  "originalPixels (snd (getCurrentCredits page w)) = originalPixels w"
  "sessionId (snd (getCurrentCredits page w)) = sessionId w"
  "storage (snd (getCurrentCredits page w)) = storage w"
  "clock (snd (getCurrentCredits page w)) = clock w"
  "burstTracker (snd (getCurrentCredits page w)) = burstTracker w"
  "lastRequestTime (snd (getCurrentCredits page w)) = lastRequestTime w"
  by (simp_all add: getCurrentCredits_def split: option.splits)

lemma sleep_frame:
  "queue (sleep ms lag w) = queue w"
  "isPlacing (sleep ms lag w) = isPlacing w"
  "pixelsPlaced (sleep ms lag w) = pixelsPlaced w"
  "errors (sleep ms lag w) = errors w"
  "originalPixels (sleep ms lag w) = originalPixels w"
  "sessionId (sleep ms lag w) = sessionId w"
  "storage (sleep ms lag w) = storage w"
  "clock (sleep ms lag w) = clock w + ms + int lag"
  "burstTracker (sleep ms lag w) = burstTracker w"
  "lastRequestTime (sleep ms lag w) = lastRequestTime w"
  by (simp_all add: sleep_def)



lemma after_confirmed_frame:
  "queue (after_confirmed e w) = queue w"
  "isPlacing (after_confirmed e w) = isPlacing w"
  "pixelsPlaced (after_confirmed e w) = pixelsPlaced w + 1"
  "errors (after_confirmed e w) = errors w"
  "originalPixels (after_confirmed e w) = originalPixels w"
  "sessionId (after_confirmed e w) = sessionId w"
  "clock (after_confirmed e w) = clock w"
  "burstTracker (after_confirmed e w) = burstTracker w"
  "lastRequestTime (after_confirmed e w) = lastRequestTime w"
  by (simp_all add: after_confirmed_def Let_def saveProgress_frame getCurrentCredits_frame)

lemma catch_block_frame:
  "queue (snd (catch_block e m w)) = queue w"
  "pixelsPlaced (snd (catch_block e m w)) = pixelsPlaced w"
  "errors (snd (catch_block e m w)) = errors w + 1"
  "originalPixels (snd (catch_block e m w)) = originalPixels w"
  "sessionId (snd (catch_block e m w)) = sessionId w"
  "lastRequestTime (snd (catch_block e m w)) = lastRequestTime w"
  by (simp_all add: catch_block_def Let_def saveProgress_frame sleep_frame)

lemma catch_block_break:
  "fst (catch_block e m w) \<Longrightarrow> \<not> isPlacing (snd (catch_block e m w))"
  by (simp add: catch_block_def Let_def split: if_splits)

lemma iteration_Confirmed:
  "answer e = Confirmed \<Longrightarrow>
     iteration e w =
       (False, after_confirmed e
          (recordRequest (await_settlement e (safeDelay e (w\<lparr>queue := tl (queue w)\<rparr>)))))"
  by (simp add: iteration_def placePixel_def Let_def)

lemma iteration_Rejected:
  "answer e = Rejected m \<Longrightarrow>
     iteration e w =
       catch_block e m (await_settlement e (safeDelay e (w\<lparr>queue := tl (queue w)\<rparr>)))"
  by (simp add: iteration_def placePixel_def Let_def)

lemma iteration_queue: "queue (snd (iteration e w)) = tl (queue w)"
  by (cases "answer e")
    (simp_all add: iteration_Confirmed iteration_Rejected after_confirmed_frame catch_block_frame
      recordRequest_frame await_settlement_frame safeDelay_frame)

lemma iteration_originalPixels: "originalPixels (snd (iteration e w)) = originalPixels w"
  by (cases "answer e")
    (simp_all add: iteration_Confirmed iteration_Rejected after_confirmed_frame catch_block_frame
      recordRequest_frame await_settlement_frame safeDelay_frame)

lemma iteration_sessionId: "sessionId (snd (iteration e w)) = sessionId w"
  by (cases "answer e")
    (simp_all add: iteration_Confirmed iteration_Rejected after_confirmed_frame catch_block_frame
      recordRequest_frame await_settlement_frame safeDelay_frame)

lemma iteration_counts:
  "pixelsPlaced (snd (iteration e w)) = pixelsPlaced w + (if answer e = Confirmed then 1 else 0)"
  "errors (snd (iteration e w)) = errors w + (if answer e = Confirmed then 0 else 1)"
  by (cases "answer e";
    simp add: iteration_Confirmed iteration_Rejected after_confirmed_frame catch_block_frame
      recordRequest_frame await_settlement_frame safeDelay_frame)+

lemma iteration_break: "fst (iteration e w) \<Longrightarrow> \<not> isPlacing (snd (iteration e w))"
  by (cases "answer e") (simp_all add: iteration_Confirmed iteration_Rejected catch_block_break)

subsection \<open>The loop\<close>

lemma run_loop_step:
  "queue w \<noteq> [] \<Longrightarrow> isPlacing w \<Longrightarrow>
     run_loop (e # es) w =
       (if fst (iteration e w) then snd (iteration e w) else run_loop es (snd (iteration e w)))"
  by (simp add: split_beta)

lemma run_loop_exit: "\<not> (queue w \<noteq> [] \<and> isPlacing w) \<Longrightarrow> run_loop es w = w"
  by (cases es) auto

lemma run_loop_originalPixels: "originalPixels (run_loop es w) = originalPixels w"
proof (induction es arbitrary: w)
  case Nil
  show ?case by simp
next
  case (Cons e es)
  show ?case
  proof (cases "queue w \<noteq> [] \<and> isPlacing w")
    case True
    then show ?thesis
      by (simp add: run_loop_step Cons.IH iteration_originalPixels del: run_loop.simps)
  next
    case False
    then show ?thesis by (simp add: run_loop_exit del: run_loop.simps)
  qed
qed

lemma run_loop_sessionId: "sessionId (run_loop es w) = sessionId w"
proof (induction es arbitrary: w)
  case Nil
  show ?case by simp
next
  case (Cons e es)
  show ?case
  proof (cases "queue w \<noteq> [] \<and> isPlacing w")
    case True
    then show ?thesis
      by (simp add: run_loop_step Cons.IH iteration_sessionId del: run_loop.simps)
  next
    case False
    then show ?thesis by (simp add: run_loop_exit del: run_loop.simps)
  qed
qed

lemma run_loop_append: "run_loop (es @ fs) w = run_loop fs (run_loop es w)"
proof (induction es arbitrary: w)
  case Nil
  show ?case by simp
next
  case (Cons e es)
  show ?case
  proof (cases "queue w \<noteq> [] \<and> isPlacing w")
    case True
    then show ?thesis
      using Cons.IH iteration_break [of e w]
      by (simp add: run_loop_step run_loop_exit del: run_loop.simps)
  next
    case False
    then show ?thesis by (simp add: run_loop_exit del: run_loop.simps)
  qed
qed

text \<open>The loop leaves after at most as many iterations as the queue is long.\<close>

lemma run_loop_leaves:
  "length (queue w) \<le> length es \<Longrightarrow>
     \<not> (queue (run_loop es w) \<noteq> [] \<and> isPlacing (run_loop es w))"
proof (induction es arbitrary: w)
  case Nil
  then show ?case by simp
next
  case (Cons e es)
  show ?case
  proof (cases "queue w \<noteq> [] \<and> isPlacing w")
    case True
    have "length (queue (snd (iteration e w))) \<le> length es"
      using Cons.prems True by (simp add: iteration_queue)
    from Cons.IH [OF this] True show ?thesis
      using iteration_break [of e w]
      by (simp add: run_loop_step del: run_loop.simps)
  next
    case False
    then show ?thesis by (simp add: run_loop_exit del: run_loop.simps)
  qed
qed

lemma processQueue_returns:
  "length (queue w) \<le> length es \<Longrightarrow>
     processQueue es set_ok page w = Some (finish set_ok page (run_loop es w))"
  using run_loop_leaves [of w es] by (simp add: processQueue_def Let_def)

lemma embedImage_begin_started:
  assumes "embedImage_begin p pixels w = (True, w0)"
  shows "queue w0 = pixels" "originalPixels w0 = pixels" "pixelsPlaced w0 = 0" "errors w0 = 0"
    "isPlacing w0" "sessionId w0 = Some (generateSessionId (start_suffix p))"
    "burstTracker w0 = []" "lastRequestTime w0 = None" "pixels \<noteq> []"
  using assms
  by (auto simp: embedImage_begin_def Let_def saveProgress_frame split: if_splits prod.splits)


subsection \<open>Queue conservation\<close>

lemma iteration_conserved:
  assumes "conserved w" and "queue w \<noteq> []"
  shows "conserved (snd (iteration e w))"
proof -
  from assms have "tl (queue w) = drop (Suc (pixelsPlaced w + errors w)) (originalPixels w)"
    by (simp add: conserved_def drop_Suc tl_drop)
  with assms show ?thesis
    by (cases "queue w") (simp_all add: conserved_def iteration_queue iteration_originalPixels iteration_counts)
qed

lemma run_loop_conserved: "conserved w \<Longrightarrow> conserved (run_loop es w)"
proof (induction es arbitrary: w)
  case Nil
  then show ?case by simp
next
  case (Cons e es)
  show ?case
  proof (cases "queue w \<noteq> [] \<and> isPlacing w")
    case False
    with Cons.prems show ?thesis by auto
  next
    case True
    then have c: "conserved (snd (iteration e w))"
      using Cons.prems iteration_conserved by blast
    show ?thesis
    proof (cases "fst (iteration e w)")
      case True
      with \<open>queue w \<noteq> [] \<and> isPlacing w\<close> c show ?thesis
        by (simp add: split_beta)
    next
      case False
      with \<open>queue w \<noteq> [] \<and> isPlacing w\<close> Cons.IH [OF c] show ?thesis
        by (simp add: split_beta)
    qed
  qed
qed

text \<open>
  One loop alone conserves the queue. In a run started by \<^verbatim>\<open>embedImage\<close>, at the entry of
  the loop and after every iteration, whatever the environment answered: \<open>pixelsPlaced + errors + |queue|\<close> is the
  length of \<open>originalPixels\<close>, which is the submitted list, and the queue is exactly the part
  of that list not yet taken, in order.
\<close>

theorem queue_conservation:
  assumes "embedImage_begin p pixels w = (True, w0)"
  shows "pixelsPlaced (run_loop es w0) + errors (run_loop es w0) + length (queue (run_loop es w0))
           = length (originalPixels (run_loop es w0))
         \<and> originalPixels (run_loop es w0) = pixels
         \<and> queue (run_loop es w0)
             = drop (pixelsPlaced (run_loop es w0) + errors (run_loop es w0)) pixels"
proof -
  have "conserved w0"
    using embedImage_begin_started [OF assms] by (simp add: conserved_def)
  then have "conserved (run_loop es w0)"
    by (rule run_loop_conserved)
  moreover have "originalPixels (run_loop es w0) = pixels"
    using embedImage_begin_started [OF assms] by (simp add: run_loop_originalPixels)
  ultimately show ?thesis
    by (simp add: conserved_def)
qed


theorem queue_conservation_witness:
  "embedImage_begin first_start [white, white] idle_world = (True, two_started)
   \<and> pixelsPlaced (run_loop [confirming] two_started) + errors (run_loop [confirming] two_started)
       + length (queue (run_loop [confirming] two_started)) = 2
   \<and> queue (run_loop [confirming] two_started) = [white]"
proof -
  have a: "embedImage_begin first_start [white, white] idle_world = (True, two_started)"
    by code_simp
  have "pixelsPlaced (run_loop [confirming] two_started) = 1"
    "errors (run_loop [confirming] two_started) = 0"
    by code_simp+
  with queue_conservation [OF a, of "[confirming]"] a show ?thesis
    by simp
qed

subsection \<open>The checkpoint at the end of a run\<close>

lemma finish_frame:
  "queue (finish set_ok page w) = queue w"
  "isPlacing (finish set_ok page w) = False"
  "pixelsPlaced (finish set_ok page w) = pixelsPlaced w"
  "errors (finish set_ok page w) = errors w"
  "originalPixels (finish set_ok page w) = originalPixels w"
  "sessionId (finish set_ok page w) = sessionId w"
  "clock (finish set_ok page w) = clock w"
  by (simp_all add: finish_def showSummary_def Let_def getCurrentCredits_frame saveProgress_frame
      clearProgress_def)

lemma finish_storage:
  "storage (finish set_ok page w) =
     (if queue w = [] then None
      else if truthy_string (sessionId w) \<and> set_ok then
        Some (Saved \<lparr> saved_sessionId = sessionId w, saved_queue = Some (queue w),
          saved_originalPixels = Some (originalPixels w), saved_pixelsPlaced = pixelsPlaced w,
          saved_errors = errors w, saved_timestamp = clock w, saved_isActive = False \<rparr>)
      else storage w)"
  by (simp add: finish_def showSummary_def Let_def getCurrentCredits_frame saveProgress_def
      clearProgress_def)

text \<open>
  C6. When \<^verbatim>\<open>processQueue\<close> returns, in a session (\<open>sessionId\<close> set, as \<^verbatim>\<open>embedImage\<close> and
  a resumed checkpoint of this program leave it) and with a store that accepts the final
  write: \<open>isPlacing\<close> is off; if the queue is empty the store is empty; otherwise the store
  holds the checkpoint of the final state, and \<^verbatim>\<open>checkForExistingSession\<close> finds it
  resumable. \<^verbatim>\<open>processQueue\<close> does return once the environment has answered as many sends
  as the queue is long (\<open>processQueue_returns\<close>).
\<close>

theorem checkpoint_on_exit:
  assumes "processQueue es set_ok page w = Some w'"
    and "truthy_string (sessionId w)" and "set_ok"
  shows "\<not> isPlacing w'
    \<and> storage w' =
       (if queue w' = [] then None
        else Some (Saved \<lparr> saved_sessionId = sessionId w', saved_queue = Some (queue w'),
          saved_originalPixels = Some (originalPixels w'), saved_pixelsPlaced = pixelsPlaced w',
          saved_errors = errors w', saved_timestamp = clock w', saved_isActive = False \<rparr>))
    \<and> fst (checkForExistingSession w') = (queue w' \<noteq> [])"
proof -
  from assms(1) have w': "w' = finish set_ok page (run_loop es w)"
    by (simp add: processQueue_def Let_def split: if_splits)
  have t: "truthy_string (sessionId (run_loop es w))"
    using assms(2) by (simp add: run_loop_sessionId)
  have st: "storage w' =
       (if queue w' = [] then None
        else Some (Saved \<lparr> saved_sessionId = sessionId w', saved_queue = Some (queue w'),
          saved_originalPixels = Some (originalPixels w'), saved_pixelsPlaced = pixelsPlaced w',
          saved_errors = errors w', saved_timestamp = clock w', saved_isActive = False \<rparr>))"
    unfolding w' using t assms(3) by (simp add: finish_storage finish_frame)
  have "fst (checkForExistingSession w') = (queue w' \<noteq> [])"
    by (simp add: checkForExistingSession_def loadProgress_def st Let_def)
  with st show ?thesis
    by (simp add: w' finish_frame)
qed



theorem checkpoint_on_exit_witness:
  "processQueue [out_of_credits, confirming] True None two_started
     = Some (finish True None (run_loop [out_of_credits, confirming] two_started))
   \<and> truthy_string (sessionId two_started)
   \<and> queue (finish True None (run_loop [out_of_credits, confirming] two_started)) = [white]
   \<and> storage (finish True None (run_loop [out_of_credits, confirming] two_started)) \<noteq> None
   \<and> fst (checkForExistingSession
        (finish True None (run_loop [out_of_credits, confirming] two_started)))"
proof -
  have "length (queue two_started) \<le> length [out_of_credits, confirming]"
    by code_simp
  then have a: "processQueue [out_of_credits, confirming] True None two_started
     = Some (finish True None (run_loop [out_of_credits, confirming] two_started))"
    by (rule processQueue_returns)
  have b: "truthy_string (sessionId two_started)"
    by code_simp
  have q: "queue (finish True None (run_loop [out_of_credits, confirming] two_started)) = [white]"
    by code_simp
  from checkpoint_on_exit [OF a b] a b q show ?thesis
    by simp
qed

subsection \<open>Running out of credits\<close>

lemma iteration_confirmed_isPlacing:
  "answer e = Confirmed \<Longrightarrow> isPlacing (snd (iteration e w)) = (isPlacing w \<and> \<not> stop_requested e)"
  by (simp add: iteration_Confirmed after_confirmed_frame recordRequest_frame
      await_settlement_frame safeDelay_frame)

lemma run_loop_confirmed:
  assumes "\<forall>e\<in>set oks. answer e = Confirmed \<and> \<not> stop_requested e"
    and "length oks \<le> length (queue w)" and "isPlacing w"
  shows "pixelsPlaced (run_loop oks w) = pixelsPlaced w + length oks
    \<and> errors (run_loop oks w) = errors w
    \<and> queue (run_loop oks w) = drop (length oks) (queue w)
    \<and> isPlacing (run_loop oks w)"
  using assms
proof (induction oks arbitrary: w)
  case Nil
  then show ?case by simp
next
  case (Cons e oks)
  from Cons.prems have e: "answer e = Confirmed" "\<not> stop_requested e"
    and q: "queue w \<noteq> []" by auto
  let ?w = "snd (iteration e w)"
  have nb: "\<not> fst (iteration e w)" using e by (simp add: iteration_Confirmed)
  have "length oks \<le> length (queue ?w)" "isPlacing ?w"
    using Cons.prems e by (simp_all add: iteration_queue iteration_confirmed_isPlacing)
  with Cons.IH [of ?w] Cons.prems(1)
  have ih: "pixelsPlaced (run_loop oks ?w) = pixelsPlaced ?w + length oks
    \<and> errors (run_loop oks ?w) = errors ?w
    \<and> queue (run_loop oks ?w) = drop (length oks) (queue ?w)
    \<and> isPlacing (run_loop oks ?w)" by simp
  have "run_loop (e # oks) w = run_loop oks ?w"
    using q Cons.prems(3) nb by (simp add: run_loop_step del: run_loop.simps)
  with ih e show ?case
    by (simp add: iteration_counts iteration_queue drop_Suc del: run_loop.simps)
qed

lemma catch_block_credit:
  "credit_error m \<Longrightarrow>
     catch_block e m w = (True, (saveProgress (save_ok e) (w\<lparr>errors := errors w + 1\<rparr>))\<lparr>isPlacing := False\<rparr>)"
  by (simp add: catch_block_def credit_error_def Let_def)

text \<open>
  C5. A batch of 100 pixels is started; the first 50 sends are confirmed (and nobody calls
  \<^verbatim>\<open>stop()\<close>), the 51st is rejected with a message that takes the credits branch, and the
  store accepts the final write. Whatever else the environment does, \<^verbatim>\<open>embedImage\<close>
  returns with 50 placed, 1 error, the last 49 pixels still queued (the failed one is not
  put back), \<open>isPlacing\<close> off and the checkpoint of that state in the store.
\<close>

theorem credits_run_out_at_51:
  assumes "embedImage_begin p pixels w = (True, w0)"
    and "length pixels = 100"
    and "length oks = 50"
    and "\<forall>e\<in>set oks. answer e = Confirmed \<and> \<not> stop_requested e"
    and "answer bad = Rejected message" and "credit_error message"
    and "set_ok"
  shows "\<exists>w'. embedImage p (oks @ bad # rest) set_ok page pixels w = Some w'
    \<and> pixelsPlaced w' = 50 \<and> errors w' = 1
    \<and> length (queue w') = 49 \<and> queue w' = drop 51 pixels
    \<and> \<not> isPlacing w'
    \<and> storage w' = Some (Saved \<lparr> saved_sessionId = sessionId w', saved_queue = Some (drop 51 pixels),
          saved_originalPixels = Some pixels, saved_pixelsPlaced = 50,
          saved_errors = 1, saved_timestamp = clock w', saved_isActive = False \<rparr>)"
proof -
  note st = embedImage_begin_started [OF assms(1)]
  let ?w50 = "run_loop oks w0"
  have "length oks \<le> length (queue w0)" using st assms(2,3) by simp
  from run_loop_confirmed [OF assms(4) this st(5)]
  have w50: "pixelsPlaced ?w50 = 50" "errors ?w50 = 0" "queue ?w50 = drop 50 pixels"
    "isPlacing ?w50"
    using st assms(3) by simp_all
  have q50: "queue ?w50 \<noteq> []" using w50 assms(2) by simp
  let ?w51 = "snd (iteration bad ?w50)"
  have brk: "fst (iteration bad ?w50)"
    using assms(5,6) by (simp add: iteration_Rejected catch_block_credit)
  have loop: "run_loop (oks @ bad # rest) w0 = ?w51"
    using q50 w50(4) brk by (simp add: run_loop_append run_loop_step del: run_loop.simps)
  have t: "tl (drop 50 pixels) = drop 51 pixels"
    using drop_Suc [of 50 pixels] tl_drop [of 50 pixels] by simp
  have w51: "pixelsPlaced ?w51 = 50" "errors ?w51 = 1" "queue ?w51 = drop 51 pixels"
    "\<not> isPlacing ?w51" "originalPixels ?w51 = pixels"
    "truthy_string (sessionId ?w51)"
    using w50 assms(5) st iteration_break [OF brk]
    by (simp_all add: iteration_counts iteration_queue iteration_originalPixels
        iteration_sessionId run_loop_originalPixels run_loop_sessionId t
        truthy_string_def generateSessionId_def)
  have ne: "queue ?w51 \<noteq> []" using w51(3) assms(2) by simp
  have "embedImage p (oks @ bad # rest) set_ok page pixels w = Some (finish set_ok page ?w51)"
    using w51(4) by (simp add: embedImage_def assms(1) processQueue_def loop Let_def)
  moreover have "storage (finish set_ok page ?w51) =
      Some (Saved \<lparr> saved_sessionId = sessionId (finish set_ok page ?w51),
          saved_queue = Some (drop 51 pixels),
          saved_originalPixels = Some pixels, saved_pixelsPlaced = 50,
          saved_errors = 1, saved_timestamp = clock (finish set_ok page ?w51),
          saved_isActive = False \<rparr>)"
    using ne w51 assms(7) by (simp add: finish_storage finish_frame)
  moreover have "length (queue ?w51) = 49" using w51(3) assms(2) by simp
  ultimately show ?thesis
    using w51 by (simp add: finish_frame)
qed

lemma credit_error_example: "credit_error ''Insufficient credits''"
  by (simp add: credit_error_def toLowerCase_def)

theorem credits_run_out_at_51_witness:
  "embedImage_begin first_start (replicate 100 white) idle_world
     = (True, snd (embedImage_begin first_start (replicate 100 white) idle_world))
   \<and> length (replicate 100 white) = 100
   \<and> length (replicate 50 confirming) = 50
   \<and> list_all (\<lambda>e. answer e = Confirmed \<and> \<not> stop_requested e) (replicate 50 confirming)
   \<and> answer out_of_credits = Rejected ''Insufficient credits''
   \<and> credit_error ''Insufficient credits''
   \<and> (\<exists>w'. embedImage first_start (replicate 50 confirming @ out_of_credits # replicate 49 confirming)
              True None (replicate 100 white) idle_world = Some w'
        \<and> pixelsPlaced w' = 50 \<and> errors w' = 1 \<and> length (queue w') = 49
        \<and> \<not> isPlacing w' \<and> storage w' \<noteq> None)"
proof -
  have a: "embedImage_begin first_start (replicate 100 white) idle_world
     = (True, snd (embedImage_begin first_start (replicate 100 white) idle_world))"
    by (simp add: embedImage_begin_def idle_world_def first_start_def getCurrentCredits_def
        Let_def)
  have b: "length (replicate 100 white) = 100" by simp
  have c: "length (replicate 50 confirming) = 50" by simp
  have d: "\<forall>e\<in>set (replicate 50 confirming). answer e = Confirmed \<and> \<not> stop_requested e"
    by (simp add: confirming_def)
  have e: "answer out_of_credits = Rejected ''Insufficient credits''"
    by (simp add: out_of_credits_def confirming_def)
  have f: "credit_error ''Insufficient credits''" by (rule credit_error_example)
  from credits_run_out_at_51 [OF a b c d e f, of True "replicate 49 confirming" None]
  obtain w' where "embedImage first_start (replicate 50 confirming @ out_of_credits # replicate 49 confirming)
              True None (replicate 100 white) idle_world = Some w'"
    "pixelsPlaced w' = 50" "errors w' = 1" "length (queue w') = 49"
    "\<not> isPlacing w'" "storage w' \<noteq> None"
    by auto
  then have "\<exists>w'. embedImage first_start (replicate 50 confirming @ out_of_credits # replicate 49 confirming)
              True None (replicate 100 white) idle_world = Some w'
        \<and> pixelsPlaced w' = 50 \<and> errors w' = 1 \<and> length (queue w') = 49
        \<and> \<not> isPlacing w' \<and> storage w' \<noteq> None" by blast
  with a b c d e f show ?thesis
    by (simp add: list_all_iff)
qed

subsection \<open>The rate limiter\<close>

lemma safeDelay_clock: "clock w + 50 \<le> clock (safeDelay e w)"
  by (simp add: safeDelay_def Let_def sleep_def universalDelay_def)

lemma safeDelay_lastRequestTime:
  "lastRequestTime (safeDelay e w) = Some (clock (safeDelay e w))"
  by (simp add: safeDelay_def Let_def sleep_def)

lemma safeDelay_spacing:
  "truthy_time (lastRequestTime w) \<Longrightarrow>
     the (lastRequestTime w) + universalDelay + 50 \<le> clock (safeDelay e w)"
  by (simp add: safeDelay_def Let_def sleep_def universalDelay_def)

lemma min_list_in:
  fixes xs :: "int list"
  shows "xs \<noteq> [] \<Longrightarrow> min_list xs \<in> set xs"
  by (simp add: min_list_Min)

lemma filter_filter_later:
  fixes c c' :: int
  shows "c \<le> c' \<Longrightarrow>
     filter (\<lambda>t. c' - t < burstWindow) (filter (\<lambda>t. c - t < burstWindow) xs)
       = filter (\<lambda>t. c' - t < burstWindow) xs"
  by (induction xs) auto

lemma safeDelay_tracker:
  "\<exists>c. clock w \<le> c \<and> c + 50 \<le> clock (safeDelay e w)
       \<and> burstTracker (safeDelay e w) = filter (\<lambda>t. c - t < burstWindow) (burstTracker w)
       \<and> (length (burstTracker w) \<le> burstLimit \<longrightarrow>
            length (burstTracker (safeDelay e w)) < burstLimit)"
proof -
  let ?now = "clock w"
  let ?tr = "filter (\<lambda>t. ?now - t < burstWindow) (burstTracker w)"
  show ?thesis
  proof (cases "burstLimit \<le> length ?tr")
    case False
    then have "burstTracker (safeDelay e w) = ?tr" "?now + 50 \<le> clock (safeDelay e w)"
      by (simp_all add: safeDelay_def Let_def sleep_def universalDelay_def)
    with False show ?thesis
      by (intro exI [of _ "?now"]) simp
  next
    case True
    then have ne: "?tr \<noteq> []" by (auto simp: burstLimit_def)
    let ?old = "min_list ?tr"
    have "?old \<in> set ?tr" using ne by (rule min_list_in)
    then have old: "?now - ?old < burstWindow" "?old \<in> set (burstTracker w)" by auto
    let ?wait = "burstWindow - (?now - ?old) + burstSafetyBuffer"
    have pos: "0 < ?wait" using old by (simp add: burstSafetyBuffer_def)
    let ?c = "?now + ?wait + int (lag_burst e)"
    have tr: "burstTracker (safeDelay e w) = filter (\<lambda>t. ?c - t < burstWindow) ?tr"
      using True pos by (simp add: safeDelay_def Let_def sleep_def)
    have le: "?now \<le> ?c" using pos by simp
    have tr': "burstTracker (safeDelay e w) = filter (\<lambda>t. ?c - t < burstWindow) (burstTracker w)"
      unfolding tr using le by (rule filter_filter_later)
    have ck: "?c + 50 \<le> clock (safeDelay e w)"
      using True pos by (simp add: safeDelay_def Let_def sleep_def universalDelay_def)
    have "\<not> ?c - ?old < burstWindow"
      by (simp add: burstSafetyBuffer_def)
    with old(2) have "length (filter (\<lambda>t. ?c - t < burstWindow) (burstTracker w))
        < length (burstTracker w)"
      by (intro length_filter_less) auto
    with tr' have "length (burstTracker w) \<le> burstLimit \<longrightarrow>
            length (burstTracker (safeDelay e w)) < burstLimit" by simp
    with le ck tr' show ?thesis
      by (intro exI [of _ "?c"]) simp
  qed
qed


lemma tracks_later:
  assumes "tracks H w" and "clock w \<le> clock w'" and "c \<le> clock w'"
    and "burstTracker w' = filter (\<lambda>t. c - t < burstWindow) (burstTracker w)"
  shows "tracks H w'"
proof -
  have "filter (\<lambda>t. clock w' - t < burstWindow) (burstTracker w')
      = filter (\<lambda>t. clock w' - t < burstWindow) (burstTracker w)"
    unfolding assms(4) using assms(3) by (rule filter_filter_later)
  also have "\<dots> = filter (\<lambda>t. clock w' - t < burstWindow)
       (filter (\<lambda>t. clock w - t < burstWindow) (burstTracker w))"
    using assms(2) by (simp only: filter_filter_later)
  also have "\<dots> = filter (\<lambda>t. clock w' - t < burstWindow)
       (filter (\<lambda>t. clock w - t < burstWindow) H)"
    using assms(1) by (simp add: tracks_def)
  also have "\<dots> = filter (\<lambda>t. clock w' - t < burstWindow) H"
    using assms(2) by (simp only: filter_filter_later)
  finally show ?thesis
    using assms(1,2) by (fastforce simp: tracks_def)
qed

lemma tracks_same:
  "tracks H w \<Longrightarrow> clock w \<le> clock w' \<Longrightarrow> burstTracker w' = burstTracker w \<Longrightarrow> tracks H w'"
proof -
  assume a: "tracks H w" "clock w \<le> clock w'" "burstTracker w' = burstTracker w"
  have "filter (\<lambda>t. clock w' - t < burstWindow) (burstTracker w')
      = filter (\<lambda>t. clock w' - t < burstWindow)
          (filter (\<lambda>t. clock w - t < burstWindow) (burstTracker w))"
    using a(2,3) by (simp only: filter_filter_later)
  also have "\<dots> = filter (\<lambda>t. clock w' - t < burstWindow)
       (filter (\<lambda>t. clock w - t < burstWindow) H)"
    using a(1) by (simp add: tracks_def)
  also have "\<dots> = filter (\<lambda>t. clock w' - t < burstWindow) H"
    using a(2) by (simp only: filter_filter_later)
  finally show ?thesis
    using a(1,2) by (fastforce simp: tracks_def)
qed

lemma tracks_recordRequest:
  assumes "tracks H w"
  shows "tracks (H @ [clock w]) (recordRequest w)"
  using assms
  by (simp add: tracks_def recordRequest_def Let_def burstWindow_def)

lemma tracks_cleared:
  assumes "\<forall>r\<in>set H. r \<le> clock w" and "clock w + burstWindow \<le> clock w'"
    and "burstTracker w' = []"
  shows "tracks H w'"
proof -
  have "\<forall>r\<in>set H. \<not> clock w' - r < burstWindow" using assms(1,2) by fastforce
  then have "filter (\<lambda>t. clock w' - t < burstWindow) H = []" by (simp add: filter_empty_conv)
  moreover have "\<forall>r\<in>set H. r \<le> clock w'" using assms(1,2) by (fastforce simp: burstWindow_def)
  ultimately show ?thesis by (simp add: tracks_def assms(3))
qed


lemma tracks_fields:
  "tracks H w \<Longrightarrow> clock w' = clock w \<Longrightarrow> burstTracker w' = burstTracker w \<Longrightarrow> tracks H w'"
  by (simp add: tracks_def)

lemma tracks_at:
  assumes "tracks H w" and "clock w \<le> c"
  shows "filter (\<lambda>t. c - t < burstWindow) H = filter (\<lambda>t. c - t < burstWindow) (burstTracker w)"
proof -
  have "filter (\<lambda>t. c - t < burstWindow) H
      = filter (\<lambda>t. c - t < burstWindow) (filter (\<lambda>t. clock w - t < burstWindow) H)"
    using assms(2) by (simp only: filter_filter_later)
  also have "\<dots> = filter (\<lambda>t. c - t < burstWindow)
      (filter (\<lambda>t. clock w - t < burstWindow) (burstTracker w))"
    using assms(1) by (simp add: tracks_def)
  also have "\<dots> = filter (\<lambda>t. c - t < burstWindow) (burstTracker w)"
    using assms(2) by (simp only: filter_filter_later)
  finally show ?thesis .
qed

lemma length_filter_mono:
  "(\<And>x. x \<in> set xs \<Longrightarrow> P x \<Longrightarrow> Q x) \<Longrightarrow> length (filter P xs) \<le> length (filter Q xs)"
  by (induction xs) auto

lemma in_window_append:
  "in_window t len (xs @ ys) = in_window t len xs + in_window t len ys"
  by (simp add: in_window_def)

lemma window_push:
  assumes "\<forall>t. in_window t burstWindow H \<le> burstLimit"
    and "length (filter (\<lambda>h. r - burstWindow \<le> h) H) < burstLimit"
  shows "\<forall>t. in_window t burstWindow (H @ [r]) \<le> burstLimit"
proof
  fix t
  show "in_window t burstWindow (H @ [r]) \<le> burstLimit"
  proof (cases "t \<le> r \<and> r \<le> t + burstWindow")
    case False
    then have "in_window t burstWindow [r] = 0" by (auto simp: in_window_def)
    with assms(1) show ?thesis by (simp add: in_window_append)
  next
    case True
    then have one: "in_window t burstWindow [r] = 1" by (simp add: in_window_def)
    have "in_window t burstWindow H \<le> length (filter (\<lambda>h. r - burstWindow \<le> h) H)"
      unfolding in_window_def using True by (intro length_filter_mono) simp
    with assms(2) one show ?thesis by (simp add: in_window_append)
  qed
qed

lemma after_confirmed_rate:
  "clock (after_confirmed e w) = clock w" "burstTracker (after_confirmed e w) = burstTracker w"
  by (simp_all add: after_confirmed_def Let_def saveProgress_def getCurrentCredits_def
      split: option.splits)

lemma await_settlement_rate:
  "clock (await_settlement e w) = clock w + int (latency e)"
  "burstTracker (await_settlement e w) = burstTracker w"
  by (simp_all add: await_settlement_def Let_def stop_def)

lemma recordRequest_length: "length (burstTracker (recordRequest w)) \<le> Suc (length (burstTracker w))"
proof -
  have "burstTracker (recordRequest w)
      = filter (\<lambda>time. clock w - time < burstWindow) (burstTracker w @ [clock w])"
    by (simp add: recordRequest_def Let_def)
  then have "length (burstTracker (recordRequest w)) \<le> length (burstTracker w @ [clock w])"
    by (simp only: length_filter_le)
  then show ?thesis by simp
qed

lemma recordRequest_clock: "clock (recordRequest w) = clock w"
  by (simp add: recordRequest_def Let_def)

text \<open>The state in which the loop calls \<^verbatim>\<open>placePixel\<close> and the state in which the send
  settles: the log is below the quota, and fewer confirmations than the quota lie within
  a window before the settlement.\<close>

lemma admitted_rate:
  fixes e :: env
  assumes "rate_inv H w"
    and w2_def: "w2 = await_settlement e (safeDelay e (w\<lparr>queue := tl (queue w)\<rparr>))"
  shows "tracks H w2" and "length (burstTracker w2) < burstLimit"
    and "length (filter (\<lambda>h. clock w2 - burstWindow \<le> h) H) < burstLimit"
proof -
  let ?w0 = "w\<lparr>queue := tl (queue w)\<rparr>"
  let ?w1 = "safeDelay e ?w0"
  from assms(1) have t0: "tracks H ?w0" and l0: "length (burstTracker ?w0) \<le> burstLimit"
    by (simp_all add: rate_inv_def tracks_def)
  obtain c where c: "clock ?w0 \<le> c" "c + 50 \<le> clock ?w1"
    "burstTracker ?w1 = filter (\<lambda>t. c - t < burstWindow) (burstTracker ?w0)"
    "length (burstTracker ?w1) < burstLimit"
    using safeDelay_tracker [of ?w0 e] l0 by blast
  have t1: "tracks H ?w1"
    using t0 c by (intro tracks_later [of H ?w0 ?w1 c]) simp_all
  show "tracks H w2"
    unfolding w2_def using t1 by (rule tracks_same) (simp_all add: await_settlement_rate)
  show "length (burstTracker w2) < burstLimit"
    unfolding w2_def using c(4) by (simp add: await_settlement_rate)
  have r: "c + 50 \<le> clock w2"
    unfolding w2_def using c(2) by (simp add: await_settlement_rate)
  have "length (filter (\<lambda>h. clock w2 - burstWindow \<le> h) H)
      \<le> length (filter (\<lambda>t. c - t < burstWindow) H)"
    using r by (intro length_filter_mono) simp
  also have "filter (\<lambda>t. c - t < burstWindow) H = burstTracker ?w1"
    using tracks_at [OF t0 c(1)] c(3) by simp
  finally show "length (filter (\<lambda>h. clock w2 - burstWindow \<le> h) H) < burstLimit"
    using c(4) by simp
qed

lemma iteration_rate_confirmed:
  assumes "rate_inv H w" and "answer e = Confirmed"
  shows "rate_inv (H @ [clock (await_settlement e (safeDelay e (w\<lparr>queue := tl (queue w)\<rparr>)))])
           (snd (iteration e w))"
proof -
  let ?w2 = "await_settlement e (safeDelay e (w\<lparr>queue := tl (queue w)\<rparr>))"
  note a = admitted_rate [OF assms(1) refl, of e]
  have it: "snd (iteration e w) = after_confirmed e (recordRequest ?w2)"
    using assms(2) by (simp add: iteration_Confirmed)
  have "tracks (H @ [clock ?w2]) (recordRequest ?w2)"
    using a(1) by (rule tracks_recordRequest)
  then have 1: "tracks (H @ [clock ?w2]) (snd (iteration e w))"
    unfolding it by (rule tracks_fields) (simp_all add: after_confirmed_rate)
  have 2: "length (burstTracker (snd (iteration e w))) \<le> burstLimit"
    using a(2) recordRequest_length [of ?w2] by (simp add: it after_confirmed_rate)
  have 3: "\<forall>t. in_window t burstWindow (H @ [clock ?w2]) \<le> burstLimit"
    using assms(1) a(3) by (intro window_push) (simp_all add: rate_inv_def)
  from 1 2 3 show ?thesis by (simp add: rate_inv_def)
qed

lemma catch_block_rate:
  "clock w \<le> clock (snd (catch_block e m w))"
  "burstTracker (snd (catch_block e m w)) = [] \<and> clock w + burstWindow \<le> clock (snd (catch_block e m w))
    \<or> burstTracker (snd (catch_block e m w)) = burstTracker w"
  by (simp_all add: catch_block_def Let_def saveProgress_frame sleep_frame burstWindow_def)

lemma iteration_rate_rejected:
  assumes "rate_inv H w" and "answer e = Rejected m"
  shows "rate_inv H (snd (iteration e w))"
proof -
  let ?w2 = "await_settlement e (safeDelay e (w\<lparr>queue := tl (queue w)\<rparr>))"
  let ?w3 = "snd (catch_block e m ?w2)"
  note a = admitted_rate [OF assms(1) refl, of e]
  have it: "snd (iteration e w) = ?w3"
    using assms(2) by (simp add: iteration_Rejected)
  from catch_block_rate(2) [of e m ?w2]
  have "tracks H ?w3 \<and> length (burstTracker ?w3) \<le> burstLimit"
  proof
    assume c: "burstTracker ?w3 = [] \<and> clock ?w2 + burstWindow \<le> clock ?w3"
    have "\<forall>r\<in>set H. r \<le> clock ?w2" using a(1) by (simp add: tracks_def)
    then have "tracks H ?w3" using c by (intro tracks_cleared [of H ?w2]) simp_all
    with c show ?thesis by simp
  next
    assume c: "burstTracker ?w3 = burstTracker ?w2"
    have "tracks H ?w3"
      using a(1) catch_block_rate(1) [of ?w2 e m] c by (rule tracks_same)
    with c a(2) show ?thesis by simp
  qed
  with assms(1) show ?thesis by (simp add: it rate_inv_def)
qed


lemma confirmations_step:
  "queue w \<noteq> [] \<Longrightarrow> isPlacing w \<Longrightarrow>
     confirmations (e # es) w =
       (if answer e = Confirmed
        then [clock (await_settlement e (safeDelay e (w\<lparr>queue := tl (queue w)\<rparr>)))] else [])
       @ (if fst (iteration e w) then [] else confirmations es (snd (iteration e w)))"
  by (cases "answer e") (simp_all add: split_beta)

lemma confirmations_exit: "\<not> (queue w \<noteq> [] \<and> isPlacing w) \<Longrightarrow> confirmations es w = []"
  by (cases es) auto

lemma admissions_step:
  "queue w \<noteq> [] \<Longrightarrow> isPlacing w \<Longrightarrow>
     admissions (e # es) w =
       clock (safeDelay e (w\<lparr>queue := tl (queue w)\<rparr>))
         # (if fst (iteration e w) then [] else admissions es (snd (iteration e w)))"
  by (simp add: split_beta)

lemma admissions_exit: "\<not> (queue w \<noteq> [] \<and> isPlacing w) \<Longrightarrow> admissions es w = []"
  by (cases es) auto

lemma confirmations_window:
  "rate_inv H w \<Longrightarrow> \<forall>t. in_window t burstWindow (H @ confirmations es w) \<le> burstLimit"
proof (induction es arbitrary: H w)
  case Nil
  then show ?case by (simp add: rate_inv_def)
next
  case (Cons e es)
  show ?case
  proof (cases "queue w \<noteq> [] \<and> isPlacing w")
    case False
    with Cons.prems show ?thesis
      by (simp add: confirmations_exit rate_inv_def del: confirmations.simps)
  next
    case True
    show ?thesis
    proof (cases "answer e")
      case Confirmed
      let ?r = "clock (await_settlement e (safeDelay e (w\<lparr>queue := tl (queue w)\<rparr>)))"
      have inv: "rate_inv (H @ [?r]) (snd (iteration e w))"
        using Cons.prems Confirmed by (rule iteration_rate_confirmed)
      have nb: "\<not> fst (iteration e w)" using Confirmed by (simp add: iteration_Confirmed)
      from Cons.IH [OF inv] True Confirmed nb show ?thesis
        by (simp add: confirmations_step del: confirmations.simps)
    next
      case (Rejected m)
      have inv: "rate_inv H (snd (iteration e w))"
        using Cons.prems Rejected by (rule iteration_rate_rejected)
      from Cons.IH [OF inv] inv True Rejected show ?thesis
        by (simp add: confirmations_step rate_inv_def del: confirmations.simps)
    qed
  qed
qed

lemma iteration_lastRequestTime:
  "lastRequestTime (snd (iteration e w))
     = Some (clock (safeDelay e (w\<lparr>queue := tl (queue w)\<rparr>)))"
  by (cases "answer e")
    (simp_all add: iteration_Confirmed iteration_Rejected after_confirmed_frame catch_block_frame
      recordRequest_frame await_settlement_frame safeDelay_lastRequestTime)

lemma iteration_clock:
  "clock (safeDelay e (w\<lparr>queue := tl (queue w)\<rparr>)) \<le> clock (snd (iteration e w))"
proof (cases "answer e")
  case Confirmed
  then show ?thesis
    by (simp add: iteration_Confirmed after_confirmed_frame recordRequest_frame
        await_settlement_frame)
next
  case (Rejected m)
  then show ?thesis
    using catch_block_rate(1) [of "await_settlement e (safeDelay e (w\<lparr>queue := tl (queue w)\<rparr>))" e m]
    by (simp add: iteration_Rejected await_settlement_frame)
qed

lemma admissions_spaced:
  "0 \<le> clock w \<Longrightarrow>
     spaced universalDelay (admissions es w)
     \<and> (case admissions es w of
          [] \<Rightarrow> True
        | a # _ \<Rightarrow> clock w + 50 \<le> a
            \<and> (truthy_time (lastRequestTime w) \<longrightarrow> the (lastRequestTime w) + universalDelay \<le> a))"
proof (induction es arbitrary: w)
  case Nil
  then show ?case by simp
next
  case (Cons e es)
  show ?case
  proof (cases "queue w \<noteq> [] \<and> isPlacing w")
    case False
    then show ?thesis by (simp add: admissions_exit del: admissions.simps)
  next
    case True
    let ?w0 = "w\<lparr>queue := tl (queue w)\<rparr>"
    let ?T = "clock (safeDelay e ?w0)"
    let ?w' = "snd (iteration e w)"
    have T: "clock w + 50 \<le> ?T" using safeDelay_clock [of ?w0 e] by simp
    have sp: "truthy_time (lastRequestTime w) \<longrightarrow> the (lastRequestTime w) + universalDelay \<le> ?T"
    proof
      assume "truthy_time (lastRequestTime w)"
      then have "truthy_time (lastRequestTime ?w0)" by simp
      from safeDelay_spacing [OF this, of e]
      show "the (lastRequestTime w) + universalDelay \<le> ?T" by simp
    qed
    have c': "0 \<le> clock ?w'" using iteration_clock [of e w] T Cons.prems by simp
    have last: "lastRequestTime ?w' = Some ?T" by (rule iteration_lastRequestTime)
    have tr: "truthy_time (lastRequestTime ?w')"
      using T Cons.prems by (simp add: last truthy_time_def)
    from Cons.IH [OF c'] have ih: "spaced universalDelay (admissions es ?w')"
      "case admissions es ?w' of [] \<Rightarrow> True | a # _ \<Rightarrow> ?T + universalDelay \<le> a"
      using tr last by (simp_all split: list.splits)
    have "spaced universalDelay (?T # admissions es ?w')"
      using ih by (cases "admissions es ?w'") simp_all
    then have "spaced universalDelay (admissions (e # es) w)"
      using True by (simp add: admissions_step del: admissions.simps)
    moreover have "admissions (e # es) w \<noteq> [] \<and> hd (admissions (e # es) w) = ?T"
      using True by (simp add: admissions_step del: admissions.simps)
    ultimately show ?thesis
      using T sp by (cases "admissions (e # es) w") (simp_all del: admissions.simps)
  qed
qed

lemma iteration_tracker_length:
  assumes "length (burstTracker w) \<le> burstLimit"
  shows "length (burstTracker (safeDelay e (w\<lparr>queue := tl (queue w)\<rparr>))) < burstLimit"
    and "length (burstTracker (snd (iteration e w))) \<le> burstLimit"
proof -
  let ?w1 = "safeDelay e (w\<lparr>queue := tl (queue w)\<rparr>)"
  let ?w2 = "await_settlement e ?w1"
  show 1: "length (burstTracker ?w1) < burstLimit"
    using safeDelay_tracker [of "w\<lparr>queue := tl (queue w)\<rparr>" e] assms by auto
  show "length (burstTracker (snd (iteration e w))) \<le> burstLimit"
  proof (cases "answer e")
    case Confirmed
    then show ?thesis
      using 1 recordRequest_length [of ?w2]
      by (simp add: iteration_Confirmed after_confirmed_rate await_settlement_rate)
  next
    case (Rejected m)
    then show ?thesis
      using 1 catch_block_rate(2) [of e m ?w2]
      by (auto simp: iteration_Rejected await_settlement_rate)
  qed
qed

lemma run_loop_tracker_length:
  "length (burstTracker w) \<le> burstLimit \<Longrightarrow> length (burstTracker (run_loop es w)) \<le> burstLimit"
proof (induction es arbitrary: w)
  case Nil
  then show ?case by simp
next
  case (Cons e es)
  show ?case
  proof (cases "queue w \<noteq> [] \<and> isPlacing w")
    case True
    note l = iteration_tracker_length(2) [OF Cons.prems, of e]
    from Cons.IH [OF l] l True show ?thesis
      by (simp add: run_loop_step del: run_loop.simps)
  next
    case False
    with Cons.prems show ?thesis by (simp add: run_loop_exit del: run_loop.simps)
  qed
qed

text \<open>
  One loop alone keeps the burst log within the quota. If the burst log holds at most 15
  timestamps when the loop is entered (after
  \<^verbatim>\<open>embedImage\<close> it is empty), then it holds at most 15 at every iteration boundary, and
  within the next iteration, whatever the environment does: when \<^verbatim>\<open>safeDelay\<close> returns the
  log is strictly below the quota (its only changes there are evictions), so the push of
  \<^verbatim>\<open>recordRequest\<close>, the one statement that makes the log longer, brings it to 15 at most,
  and the iteration ends with at most 15.
\<close>

theorem burst_log_bounded:
  assumes "length (burstTracker w0) \<le> burstLimit"
  shows "length (burstTracker (run_loop es w0)) \<le> burstLimit
    \<and> length (burstTracker (safeDelay e ((run_loop es w0)\<lparr>queue := tl (queue (run_loop es w0))\<rparr>)))
        < burstLimit
    \<and> length (burstTracker (await_settlement e
          (safeDelay e ((run_loop es w0)\<lparr>queue := tl (queue (run_loop es w0))\<rparr>))) @ [now])
        \<le> burstLimit
    \<and> length (burstTracker (snd (iteration e (run_loop es w0)))) \<le> burstLimit"
proof -
  have l: "length (burstTracker (run_loop es w0)) \<le> burstLimit"
    using assms by (rule run_loop_tracker_length)
  from iteration_tracker_length [OF l, of e] l show ?thesis
    by (simp add: await_settlement_rate)
qed


theorem burst_log_bounded_witness:
  "length (burstTracker sixteen_started) \<le> burstLimit
   \<and> length (burstTracker (run_loop (replicate 15 confirming) sixteen_started)) = 15
   \<and> length (burstTracker (run_loop (replicate 16 confirming) sixteen_started)) \<le> burstLimit"
proof -
  have a: "length (burstTracker sixteen_started) \<le> burstLimit"
    by code_simp
  have "length (burstTracker (run_loop (replicate 15 confirming) sixteen_started)) = 15"
    by code_simp
  with burst_log_bounded [OF a, of "replicate 16 confirming" confirming 0] a show ?thesis
    by simp
qed

lemma embedImage_begin_clock: "clock w \<le> clock (snd (embedImage_begin p pixels w))"
  by (simp add: embedImage_begin_def Let_def getCurrentCredits_eq saveProgress_frame sleep_frame)

text \<open>
  One loop alone, within one run, keeps the rate. In a run started by \<^verbatim>\<open>embedImage\<close>
  (with the clock not before the epoch), for every
  number of iterations and whatever the environment does: the times at which the loop
  calls \<^verbatim>\<open>placePixel\<close>, which are the values \<^verbatim>\<open>safeDelay\<close> leaves in \<open>lastRequestTime\<close>, are
  each at least \<open>universalDelay\<close> (400ms) after the one before, and no window of length
  \<open>burstWindow\<close> (10000ms, both ends counted), wherever it starts, holds more than
  \<open>burstLimit\<close> (15) of the timestamps pushed by \<^verbatim>\<open>recordRequest\<close>.
\<close>

theorem rate_bound:
  assumes "embedImage_begin p pixels w = (True, w0)" and "0 \<le> clock w"
  shows "spaced universalDelay (admissions es w0)
    \<and> (\<forall>t. in_window t burstWindow (confirmations es w0) \<le> burstLimit)"
proof -
  note st = embedImage_begin_started [OF assms(1)]
  have "clock w \<le> clock w0"
    using embedImage_begin_clock [of w p pixels] assms(1) by simp
  then have c: "0 \<le> clock w0" using assms(2) by simp
  have "rate_inv [] w0"
    using st by (simp add: rate_inv_def tracks_def in_window_def)
  from confirmations_window [OF this, of es] admissions_spaced [OF c, of es]
  show ?thesis by simp
qed



theorem rate_bound_witness:
  "embedImage_begin first_start (replicate 16 white) idle_world = (True, sixteen_started)
   \<and> 0 \<le> clock idle_world
   \<and> admissions (replicate 16 confirming) sixteen_started
       = [1050, 1500, 1950, 2400, 2850, 3300, 3750, 4200, 4650, 5100, 5550, 6000, 6450, 6900,
          7350, 13500]
   \<and> spaced universalDelay (admissions (replicate 16 confirming) sixteen_started)
   \<and> in_window 3500 burstWindow (confirmations (replicate 16 confirming) sixteen_started)
       \<le> burstLimit"
proof -
  have a: "embedImage_begin first_start (replicate 16 white) idle_world = (True, sixteen_started)"
    by code_simp
  have b: "0 \<le> clock idle_world"
    by code_simp
  have c: "admissions (replicate 16 confirming) sixteen_started
       = [1050, 1500, 1950, 2400, 2850, 3300, 3750, 4200, 4650, 5100, 5550, 6000, 6450, 6900,
          7350, 13500]"
    by code_simp
  from rate_bound [OF a b, of "replicate 16 confirming"] a b c show ?thesis
    by simp
qed

text \<open>The spacing is between sends, not between confirmations: a send confirmed after five
  seconds and the next one confirmed at once are recorded 50ms apart.\<close>

lemma confirmations_not_spaced:
  "confirmations [slow_confirming, confirming] two_started = [6050, 6100]"
  by code_simp

subsection \<open>How long the gate holds a caller\<close>

lemma spaced_all: "0 \<le> g \<Longrightarrow> spaced g (a # xs) \<Longrightarrow> \<forall>x\<in>set xs. a + g \<le> x"
proof (induction xs arbitrary: a)
  case Nil
  then show ?case by simp
next
  case (Cons b xs)
  then have "a + g \<le> b" "spaced g (b # xs)" by simp_all
  with Cons.IH [of b] Cons.prems(1) show ?case by fastforce
qed

lemma spaced_Cons:
  "spaced g xs \<Longrightarrow> \<forall>x\<in>set xs. a + g \<le> x \<Longrightarrow> spaced g (a # xs)"
  by (cases xs) simp_all

lemma spaced_tail: "spaced g (a # xs) \<Longrightarrow> spaced g xs"
  by (cases xs) simp_all

lemma spaced_filter: "0 \<le> g \<Longrightarrow> spaced g xs \<Longrightarrow> spaced g (filter P xs)"
proof (induction xs)
  case Nil
  then show ?case by simp
next
  case (Cons a xs)
  have t: "spaced g (filter P xs)" using Cons by (simp add: spaced_tail)
  have "\<forall>x\<in>set (filter P xs). a + g \<le> x" using spaced_all [OF Cons.prems] by simp
  with t show ?case by (simp add: spaced_Cons)
qed

lemma spaced_snoc: "spaced g xs \<Longrightarrow> \<forall>x\<in>set xs. x + g \<le> r \<Longrightarrow> spaced g (xs @ [r])"
proof (induction g xs rule: spaced.induct)
  case (1 gap)
  then show ?case by simp
next
  case (2 gap a)
  then show ?case by simp
next
  case (3 gap a b ts)
  then show ?case by simp
qed

lemma spaced_span:
  "0 \<le> g \<Longrightarrow> spaced g (a # xs) \<Longrightarrow> a + g * int (length xs) \<le> last (a # xs)"
proof (induction xs arbitrary: a)
  case Nil
  then show ?case by simp
next
  case (Cons b xs)
  then have "a + g \<le> b" "spaced g (b # xs)" by simp_all
  with Cons.IH [of b] Cons.prems(1) show ?case by (simp add: algebra_simps)
qed

lemma min_list_le_hd:
  fixes xs :: "int list"
  shows "xs \<noteq> [] \<Longrightarrow> min_list xs \<le> hd xs"
  by (simp add: min_list_Min)

text \<open>A full log of a paced state reaches back at least 700ms.\<close>

lemma paced_oldest:
  assumes "spaced 50 tr" and "\<forall>r\<in>set tr. r \<le> now" and "burstLimit \<le> length tr"
  shows "min_list tr + 700 \<le> now"
proof -
  from assms(3) obtain a xs where tr: "tr = a # xs" and l: "14 \<le> length xs"
    by (cases tr) (auto simp: burstLimit_def)
  have "a + 50 * int (length xs) \<le> last (a # xs)"
    using assms(1) by (intro spaced_span) (simp_all add: tr)
  moreover have "last (a # xs) \<le> now" using assms(2) tr by (metis last_in_set list.distinct(1))
  moreover have "min_list tr \<le> a" using min_list_le_hd [of tr] tr by simp
  ultimately show ?thesis using l by simp
qed

lemma safeDelay_wait_bounded:
  assumes "paced w" and "random100 e < 100"
  shows "safeDelay_wait e w \<le> burstWindow + burstSafetyBuffer"
proof -
  let ?now = "clock w"
  let ?tr = "filter (\<lambda>time. ?now - time < burstWindow) (burstTracker w)"
  let ?burst = "if burstLimit \<le> length ?tr then
      (if 0 < burstWindow - (?now - min_list ?tr) + burstSafetyBuffer
       then burstWindow - (?now - min_list ?tr) + burstSafetyBuffer else 0) else 0"
  let ?spacing = "if truthy_time (lastRequestTime w) then
      (if ?now - the (lastRequestTime w) < universalDelay
       then universalDelay - (?now - the (lastRequestTime w)) else 0) else 0"
  have w: "safeDelay_wait e w = ?burst + ?spacing + (int (random100 e) + 50)"
    by (simp add: safeDelay_wait_def Let_def)
  have sp: "spaced 50 ?tr" using assms(1) by (simp add: paced_def spaced_filter)
  have le: "\<forall>r\<in>set ?tr. r \<le> ?now" using assms(1) by (simp add: paced_def)
  have b: "?burst \<le> burstWindow + burstSafetyBuffer - 700"
  proof (cases "burstLimit \<le> length ?tr")
    case True
    from paced_oldest [OF sp le True] show ?thesis
      by (simp add: burstWindow_def burstSafetyBuffer_def)
  next
    case False
    then show ?thesis by (simp add: burstWindow_def burstSafetyBuffer_def)
  qed
  have s: "?spacing \<le> universalDelay"
    using assms(1) by (auto simp: paced_def truthy_time_def universalDelay_def split: option.splits)
  from b s assms(2) show ?thesis
    unfolding w by (simp add: universalDelay_def)
qed

lemma safeDelay_elapsed:
  "clock w + safeDelay_wait e w \<le> clock (safeDelay e w)
   \<and> clock (safeDelay e w)
       \<le> clock w + safeDelay_wait e w + int (lag_burst e + lag_spacing e + lag_extra e)"
  by (simp add: safeDelay_def safeDelay_wait_def Let_def sleep_def)

lemma paced_safeDelay:
  assumes "paced w"
  shows "paced (safeDelay e w)" and "\<forall>r\<in>set (burstTracker (safeDelay e w)). r + 50 \<le> clock (safeDelay e w)"
proof -
  obtain c where c: "clock w \<le> c" "c + 50 \<le> clock (safeDelay e w)"
    "burstTracker (safeDelay e w) = filter (\<lambda>t. c - t < burstWindow) (burstTracker w)"
    using safeDelay_tracker [of w e] by blast
  show 2: "\<forall>r\<in>set (burstTracker (safeDelay e w)). r + 50 \<le> clock (safeDelay e w)"
    using assms c by (fastforce simp: paced_def)
  have "spaced 50 (burstTracker (safeDelay e w))"
    using assms by (simp add: c(3) paced_def spaced_filter)
  with 2 show "paced (safeDelay e w)"
    by (fastforce simp: paced_def safeDelay_lastRequestTime)
qed

lemma paced_recordRequest:
  assumes "paced w" and "\<forall>r\<in>set (burstTracker w). r + 50 \<le> clock w"
  shows "paced (recordRequest w)"
proof -
  have tr: "burstTracker (recordRequest w)
      = filter (\<lambda>time. clock w - time < burstWindow) (burstTracker w @ [clock w])"
    by (simp add: recordRequest_def Let_def)
  have "spaced 50 (burstTracker w @ [clock w])"
    using assms by (intro spaced_snoc) (simp_all add: paced_def)
  then have "spaced 50 (burstTracker (recordRequest w))"
    unfolding tr by (intro spaced_filter) simp_all
  moreover have "\<forall>r\<in>set (burstTracker (recordRequest w)). r \<le> clock w"
    unfolding tr using assms(1) by (auto simp: paced_def)
  ultimately show ?thesis
    using assms(1) by (simp add: paced_def recordRequest_frame)
qed

lemma paced_iteration:
  assumes "paced w"
  shows "paced (snd (iteration e w))"
proof -
  let ?w0 = "w\<lparr>queue := tl (queue w)\<rparr>"
  let ?w1 = "safeDelay e ?w0"
  let ?w2 = "await_settlement e ?w1"
  have "paced ?w0" using assms by (simp add: paced_def)
  note p1 = paced_safeDelay [OF this, of e]
  have p2: "paced ?w2" "\<forall>r\<in>set (burstTracker ?w2). r + 50 \<le> clock ?w2"
    using p1 by (fastforce simp: paced_def await_settlement_frame)+
  show ?thesis
  proof (cases "answer e")
    case Confirmed
    have "paced (recordRequest ?w2)" using p2 by (rule paced_recordRequest)
    then show ?thesis
      using Confirmed by (simp add: iteration_Confirmed paced_def after_confirmed_frame)
  next
    case (Rejected m)
    let ?w3 = "snd (catch_block e m ?w2)"
    have "spaced 50 (burstTracker ?w3) \<and> (\<forall>r\<in>set (burstTracker ?w3). r \<le> clock ?w3)"
      using catch_block_rate(1) [of ?w2 e m] catch_block_rate(2) [of e m ?w2] p2(1)
      by (fastforce simp: paced_def)
    moreover have "\<forall>t. lastRequestTime ?w3 = Some t \<longrightarrow> t \<le> clock ?w3"
      using catch_block_rate(1) [of ?w2 e m] p2(1) by (fastforce simp: paced_def catch_block_frame)
    ultimately show ?thesis
      using Rejected by (simp add: iteration_Rejected paced_def)
  qed
qed

lemma paced_run_loop: "paced w \<Longrightarrow> paced (run_loop es w)"
proof (induction es arbitrary: w)
  case Nil
  then show ?case by simp
next
  case (Cons e es)
  show ?case
  proof (cases "queue w \<noteq> [] \<and> isPlacing w")
    case True
    note p = paced_iteration [OF Cons.prems, of e]
    from Cons.IH [OF p] p True show ?thesis
      by (simp add: run_loop_step del: run_loop.simps)
  next
    case False
    with Cons.prems show ?thesis by (simp add: run_loop_exit del: run_loop.simps)
  qed
qed

text \<open>
  One loop alone is never held longer than 12000ms. In a run started by \<^verbatim>\<open>embedImage\<close>,
  at every iteration boundary, for every value of
  \<^verbatim>\<open>Math.random()\<close> (below 1, so the extra delay is below 150ms): the waits that the next
  call of \<^verbatim>\<open>safeDelay\<close> asks for (burst protection, minimum spacing and extra delay
  together) are at most \<open>burstWindow + burstSafetyBuffer\<close> = 12000ms, and the call returns
  within that time plus the lateness of its timers. The log of such a run holds at most 15
  entries and they are 50ms or more apart, so a full log reaches back 700ms and the
  burst wait is at most 11300ms.
\<close>

theorem admission_wait_bounded:
  assumes "embedImage_begin p pixels w = (True, w0)" and "random100 e < 100"
  shows "safeDelay_wait e ((run_loop es w0)\<lparr>queue := tl (queue (run_loop es w0))\<rparr>)
           \<le> burstWindow + burstSafetyBuffer
    \<and> clock (safeDelay e ((run_loop es w0)\<lparr>queue := tl (queue (run_loop es w0))\<rparr>))
        \<le> clock (run_loop es w0) + (burstWindow + burstSafetyBuffer)
           + int (lag_burst e + lag_spacing e + lag_extra e)"
proof -
  let ?w = "(run_loop es w0)\<lparr>queue := tl (queue (run_loop es w0))\<rparr>"
  have "paced w0"
    using embedImage_begin_started [OF assms(1)] by (simp add: paced_def)
  then have "paced (run_loop es w0)" by (rule paced_run_loop)
  then have "paced ?w" by (simp add: paced_def)
  from safeDelay_wait_bounded [OF this assms(2)] safeDelay_elapsed [of ?w e]
  show ?thesis by simp
qed

theorem admission_wait_bounded_witness:
  "embedImage_begin first_start (replicate 16 white) idle_world = (True, sixteen_started)
   \<and> random100 confirming < 100
   \<and> safeDelay_wait confirming
        ((run_loop (replicate 15 confirming) sixteen_started)
           \<lparr>queue := tl (queue (run_loop (replicate 15 confirming) sixteen_started))\<rparr>) = 6150
   \<and> safeDelay_wait confirming
        ((run_loop (replicate 15 confirming) sixteen_started)
           \<lparr>queue := tl (queue (run_loop (replicate 15 confirming) sixteen_started))\<rparr>)
       \<le> burstWindow + burstSafetyBuffer"
proof -
  have a: "embedImage_begin first_start (replicate 16 white) idle_world = (True, sixteen_started)"
    by code_simp
  have b: "random100 confirming < 100"
    by code_simp
  have c: "safeDelay_wait confirming
        ((run_loop (replicate 15 confirming) sixteen_started)
           \<lparr>queue := tl (queue (run_loop (replicate 15 confirming) sixteen_started))\<rparr>) = 6150"
    by code_simp
  from admission_wait_bounded [OF a b, of "replicate 15 confirming"] a b c show ?thesis
    by simp
qed





subsection \<open>Two runs in a row\<close>

text \<open>
  C1 fails on the code: \<^verbatim>\<open>embedImage\<close> empties \<open>burstTracker\<close> and clears \<open>lastRequestTime\<close>
  at every start, so the limiter forgets the sends of the run before. A fresh embedder
  places fifteen pixels (sends at 1050, 1500, ..., 7350, each confirmed at once) and
  \<^verbatim>\<open>embedImage\<close> returns at 7350; a second \<^verbatim>\<open>embedImage\<close> of fifteen pixels, called then,
  sends at 7400, 50ms after the last send, and goes on every 450ms. The window of 10000ms
  that starts at 3750 holds 24 recorded sends.
\<close>

theorem back_to_back_runs:
  "embedImage_begin first_start (replicate 15 white) idle_world = (True, fifteen_started)
   \<and> embedImage first_start (replicate 15 confirming) True None (replicate 15 white) idle_world
       = Some first_run_done
   \<and> clock first_run_done = 7350
   \<and> embedImage_begin first_start (replicate 15 white) first_run_done = (True, second_started)
   \<and> admissions (replicate 15 confirming) fifteen_started
       = [1050, 1500, 1950, 2400, 2850, 3300, 3750, 4200, 4650, 5100, 5550, 6000, 6450, 6900, 7350]
   \<and> admissions (replicate 15 confirming) second_started
       = [7400, 7850, 8300, 8750, 9200, 9650, 10100, 10550, 11000, 11450, 11900, 12350, 12800,
          13250, 13700]
   \<and> in_window 3750 burstWindow
        (confirmations (replicate 15 confirming) fifteen_started
          @ confirmations (replicate 15 confirming) second_started) = 24
   \<and> \<not> spaced universalDelay
        (admissions (replicate 15 confirming) fifteen_started
          @ admissions (replicate 15 confirming) second_started)"
  by code_simp

subsection \<open>The two layers agree\<close>

lemma embedImage_begin_body:
  "embedImage_begin p pixels w =
     (if isPlacing w then (False, w)
      else embedImage_body p pixels (if socket w then sleep 300 (start_lag p) w else w))"
  by (simp add: embedImage_begin_def embedImage_body_def Let_def)

lemma resumeEmbedding_begin_agrees:
  "resumeEmbedding proceed es set_ok page w =
     (if fst (resumeEmbedding_begin proceed w)
      then map_option (Pair True) (processQueue es set_ok page (snd (resumeEmbedding_begin proceed w)))
      else Some (False, snd (resumeEmbedding_begin proceed w)))"
  by (simp add: resumeEmbedding_def resumeEmbedding_begin_def Let_def split_beta)

lemma solo_safeDelay_agrees:
  "solo_safeDelay e w = (Sending (clock (safeDelay e w)), safeDelay e w)"
  by (simp add: solo_safeDelay_def enter_safeDelay_def enter_spacing_def enter_extra_def late_def
      after_timer_def safeDelay_def sleep_def Let_def)

lemma solo_pass_agrees: "solo_pass e w = iteration e w"
proof (cases "answer e")
  case Confirmed
  then show ?thesis
    by (simp add: solo_pass_def solo_safeDelay_agrees iteration_Confirmed after_answer_def)
next
  case (Rejected m)
  then show ?thesis
    by (simp add: solo_pass_def solo_safeDelay_agrees iteration_Rejected after_answer_def
        catch_to_sleep_def catch_block_def sleep_def Let_def)
qed

text \<open>A run of two pixels, as occurrences and as \<^verbatim>\<open>embedImage\<close> of the first layer.\<close>

lemma solo_run_agrees:
  "map_option shared (deliver_all (map occ
      [(1000, CallEmbedImage first_start [white, white]),
       (1050, Timer 0), (1050, Answer Confirmed), (1450, Timer 0), (1500, Timer 0),
       (1500, Answer Confirmed)]) (boot idle_world))
   = embedImage first_start [confirming, confirming] True None [white, white] idle_world"
  by code_simp


subsection \<open>A second loop after stop and resume\<close>

text \<open>
  C3 fails on the code: \<^verbatim>\<open>stop()\<close> clears \<open>isPlacing\<close> while the loop is still suspended, so
  the guard of \<^verbatim>\<open>resumeEmbedding\<close> lets a second loop start, and the first loop, which finds
  \<open>isPlacing\<close> set again, goes on. \<^verbatim>\<open>embedImage\<close> of sixteen pixels at 1000 has placed
  fifteen by 7350 and sleeps in \<^verbatim>\<open>safeDelay\<close> with the sixteenth taken from the queue. At
  8000 the user calls \<^verbatim>\<open>stop()\<close> and \<^verbatim>\<open>resumeEmbedding()\<close>: the checkpoint written after the
  tenth pixel is restored (ten placed, six queued) and a second loop starts. Both loops
  drain the queue; when both have returned, 17 pixels are counted as placed, with no error
  and an empty queue, for 16 original pixels.
\<close>

theorem stop_resume_places_17:
  "map_option (\<lambda>m. (tasks m, pixelsPlaced (shared m), errors (shared m), length (queue (shared m)),
        length (originalPixels (shared m))))
     (deliver_all (map occ
        ((1000, CallEmbedImage first_start (replicate 16 white)) # one_loop_until_8000
          @ stop_then_resume @ two_loops_until_14450))
        (boot idle_world))
   = Some ([Returned, Returned], 17, 0, 0, 16)"
  by code_simp

text \<open>
  C9 fails on the code, by the same second loop. With forty pixels instead of sixteen the
  two loops go on: each tests the length of the log before its own send, so one passes the
  test at 14 while the send of the other is still to be recorded, and at 18900 the log
  holds 16 timestamps of the last 10000ms.
\<close>

theorem two_loops_overfill_log:
  "map_option (\<lambda>m. burstTracker (shared m))
     (deliver_all (map occ
        ((1000, CallEmbedImage first_start (replicate 40 white)) # one_loop_until_8000
          @ stop_then_resume @ two_loops_until_14450 @ two_loops_until_18900))
        (boot idle_world))
   = Some [13100, 13500, 13550, 13950, 14000, 14400, 14450, 14850, 14900, 15300, 17950, 18000,
        18400, 18450, 18850, 18900]
   \<and> \<not> length [13100, 13500, 13550, 13950, 14000, 14400, 14450, 14850, 14900, 15300, 17950,
        18000, 18400, 18450, 18850, 18900 :: int] \<le> burstLimit"
  by code_simp

end
